theory Spec2Isabelle
  imports Main "HOL-Library.Word" "HOL-Library.Sublist"
begin

unbundle bit_operations_syntax

section \<open>Data model of the socket layer\<close>

text \<open>
  The build configuration macro \<^verbatim>\<open>HAVE_INET6\<close> (from \<^verbatim>\<open>config.h\<close>) selects between two
  bodies of several functions of \<^verbatim>\<open>util/network.c\<close>.  Every such function takes the
  macro as its first argument \<open>have_inet6\<close>.

  An \<^verbatim>\<open>in_addr\<close> is four bytes in network order.  \<open>s_addr\<close> is modelled by the number
  those four bytes spell when read most significant byte first; under that reading
  \<^verbatim>\<open>htonl\<close> is the identity on every host, and \<^verbatim>\<open>&\<close> and \<^verbatim>\<open>==\<close> on \<open>s_addr\<close> values act
  on the bytes, whatever the byte order of the host is.  An \<^verbatim>\<open>in6_addr\<close> is sixteen
  bytes, modelled by the 128-bit number they spell in the same way; \<open>s6_addr\<close> reads
  one byte of it.
\<close>

type_synonym in_addr = "32 word"
type_synonym in6_addr = "128 word"

datatype family = AF_INET | AF_INET6 | AF_OTHER nat

datatype sockaddr =
    Sockaddr_in (sin_port: "16 word") (sin_addr: in_addr)
  | Sockaddr_in6 (sin6_port: "16 word") (sin6_addr: in6_addr)
  | Sockaddr_other nat

fun sa_family :: "sockaddr \<Rightarrow> family" where
  "sa_family (Sockaddr_in p x) = AF_INET"
| "sa_family (Sockaddr_in6 p x) = AF_INET6"
| "sa_family (Sockaddr_other n) = AF_OTHER n"

definition htonl :: "32 word \<Rightarrow> 32 word" where
  "htonl x = x"

definition s6_addr :: "in6_addr \<Rightarrow> nat \<Rightarrow> 8 word" where
  "s6_addr w i = ucast (drop_bit (8 * (15 - i)) w)"

text \<open>
  \<^verbatim>\<open>IN6_IS_ADDR_V4MAPPED\<close>: the first ten bytes are zero and the next two are 0xff.
  \<^verbatim>\<open>IN6_ARE_ADDR_EQUAL\<close>: all sixteen bytes agree.  \<open>v4_of_mapped\<close> is the
  \<^verbatim>\<open>memcpy(&in, a6->sin6_addr.s6_addr + 12, sizeof(in))\<close>: the last four bytes.
\<close>

definition IN6_IS_ADDR_V4MAPPED :: "in6_addr \<Rightarrow> bool" where
  "IN6_IS_ADDR_V4MAPPED w = (drop_bit 32 w = 0xFFFF)"

definition IN6_ARE_ADDR_EQUAL :: "in6_addr \<Rightarrow> in6_addr \<Rightarrow> bool" where
  "IN6_ARE_ADDR_EQUAL x y = (x = y)"

definition v4_of_mapped :: "in6_addr \<Rightarrow> in_addr" where
  "v4_of_mapped w = ucast w"

subsection \<open>network_sockaddr_equal\<close>

text \<open>
  The source keeps four views \<open>a4\<close>, \<open>b4\<close>, \<open>a6\<close>, \<open>b6\<close> of its two arguments and, when
  \<open>a\<close> is IPv4 and \<open>b\<close> is IPv6, swaps \<open>a\<close> and \<open>b\<close> and re-points \<open>a6\<close> and \<open>b4\<close> only.
\<close>

definition sockaddr_equal_v4 :: "sockaddr \<Rightarrow> sockaddr \<Rightarrow> sockaddr \<Rightarrow> sockaddr \<Rightarrow> bool" where
  "sockaddr_equal_v4 a b a4 b4 =
     (if sa_family a \<noteq> AF_INET \<or> sa_family b \<noteq> AF_INET then False
      else sin_addr a4 = sin_addr b4)"

definition network_sockaddr_equal :: "bool \<Rightarrow> sockaddr \<Rightarrow> sockaddr \<Rightarrow> bool" where
  "network_sockaddr_equal have_inet6 a0 b0 =
     (let a4 = a0; b4 = b0 in
      if have_inet6 then
        (let a6 = a0; b6 = b0;
             swap = (sa_family a0 = AF_INET \<and> sa_family b0 = AF_INET6);
             a = (if swap then b0 else a0);
             b = (if swap then a0 else b0);
             a6 = (if swap then a else a6);
             b4 = (if swap then b else b4)
         in if sa_family a = AF_INET6 then
              (if sa_family b = AF_INET6 then
                 IN6_ARE_ADDR_EQUAL (sin6_addr a6) (sin6_addr b6)
               else if sa_family b \<noteq> AF_INET then False
               else if \<not> IN6_IS_ADDR_V4MAPPED (sin6_addr a6) then False
               else v4_of_mapped (sin6_addr a6) = sin_addr b4)
            else sockaddr_equal_v4 a b a4 b4)
      else sockaddr_equal_v4 a0 b0 a4 b4)"

text \<open>The IPv4-mapped IPv6 address that embeds an IPv4 address: \<open>::ffff:a.b.c.d\<close>.\<close>

definition v4mapped :: "in_addr \<Rightarrow> in6_addr" where
  "v4mapped x = push_bit 32 0xFFFF OR ucast x"


section \<open>The operating system and the C library\<close>

text \<open>
  The functions of \<^verbatim>\<open>util/network.c\<close> and \<^verbatim>\<open>server/remctld.c\<close> act on the process's
  descriptor table and \<^verbatim>\<open>errno\<close> through system calls whose outcome the program does
  not control.  The state of the process is passed explicitly.  The outcome of every
  call is read from a \<open>world\<close>, indexed by the number of calls made so far, so that
  any sequence of successes and failures is one world.  Each call is logged, with its
  result, in \<open>events\<close>, oldest first.

  An event holds the arguments of the call and, last, its result: a descriptor, 0 or
  -1.  \<open>Ev_socket\<close> also holds, before the result, the descriptors that were open when
  the call was made; \<open>Ev_gss\<close> holds the name of a GSS-API call and its major status,
  \<open>Ev_new_client\<close> a descriptor and the protocol version of the client made for it,
  \<open>Ev_handle_commands\<close> the protocol version (1 or 2) and the descriptor.
\<close>

datatype event =
    Ev_socket family int int "int list" int
  | Ev_setsockopt int int
  | Ev_bind int sockaddr int
  | Ev_listen int int
  | Ev_connect int sockaddr int
  | Ev_accept int int
  | Ev_close int int
  | Ev_warn string
  | Ev_gss string nat
  | Ev_config_load string bool
  | Ev_new_client int "int option"
  | Ev_handle_commands int int
  | Ev_free_client int
  | Ev_alarm nat
  | Ev_pid_file string bool

record os_state =
  open_fds :: "int list"
  errno :: int
  clock :: nat
  events :: "event list"

text \<open>
  \<open>sys_fail W n\<close> is the \<^verbatim>\<open>errno\<close> with which the \<open>n\<close>-th call fails, \<open>None\<close> when it
  succeeds; \<open>gss_major W n\<close> is the major status of a GSS-API call (0 is
  \<^verbatim>\<open>GSS_S_COMPLETE\<close>); \<open>new_client W n\<close> is the protocol version of the client that
  \<^verbatim>\<open>server_new_client\<close> returns, \<open>None\<close> when it returns \<^verbatim>\<open>NULL\<close>; \<open>config_ok W f\<close> tells
  whether \<^verbatim>\<open>server_config_load\<close> can read the file \<open>f\<close>.
\<close>

record world =
  sys_fail :: "nat \<Rightarrow> int option"
  gss_major :: "nat \<Rightarrow> nat"
  new_client :: "nat \<Rightarrow> int option"
  config_ok :: "string \<Rightarrow> bool"

text \<open>
  The text-to-address functions of the C library are parameters: \<open>inet_aton L s\<close> is
  the address \<^verbatim>\<open>inet_aton\<close> stores when it accepts \<open>s\<close>, \<open>inet_pton6 L s\<close> the one
  \<^verbatim>\<open>inet_pton(AF_INET6, s, _)\<close> stores when it returns 1 (it returns 0 otherwise: -1 is
  for an address family it does not know).  \<open>atoi\<close> is the library's, too.
\<close>

record libc =
  inet_aton :: "string \<Rightarrow> in_addr option"
  inet_pton6 :: "string \<Rightarrow> in6_addr option"
  atoi :: "string \<Rightarrow> int"

definition SOCK_STREAM :: int where "SOCK_STREAM = 1"
definition IPPROTO_IP :: int where "IPPROTO_IP = 0"
definition EBADF :: int where "EBADF = 9"
definition EPROTONOSUPPORT :: int where "EPROTONOSUPPORT = 93"
definition EAFNOSUPPORT :: int where "EAFNOSUPPORT = 97"

definition htons :: "16 word \<Rightarrow> 16 word" where
  "htons x = x"

text \<open>A new descriptor is the lowest number that is not open.\<close>

definition lowest_free :: "int list \<Rightarrow> int" where
  "lowest_free fds = hd (filter (\<lambda>n. n \<notin> set fds) (map int [0..<Suc (length fds)]))"

definition record_call :: "event \<Rightarrow> os_state \<Rightarrow> os_state" where
  "record_call e s = s\<lparr>clock := Suc (clock s), events := events s @ [e]\<rparr>"

definition sys_socket :: "world \<Rightarrow> family \<Rightarrow> int \<Rightarrow> int \<Rightarrow> os_state \<Rightarrow> int \<times> os_state" where
  "sys_socket W domain ty protocol s =
     (case sys_fail W (clock s) of
        Some e \<Rightarrow>
          (-1, record_call (Ev_socket domain ty protocol (open_fds s) (-1)) (s\<lparr>errno := e\<rparr>))
      | None \<Rightarrow>
          (let fd = lowest_free (open_fds s)
           in (fd, record_call (Ev_socket domain ty protocol (open_fds s) fd)
                     (s\<lparr>open_fds := fd # open_fds s\<rparr>))))"

text \<open>
  \<^verbatim>\<open>close\<close> releases an open descriptor even when it reports an error (and then sets
  \<^verbatim>\<open>errno\<close>); on a descriptor that is not open it fails with \<^verbatim>\<open>EBADF\<close>.
\<close>

definition sys_close :: "world \<Rightarrow> int \<Rightarrow> os_state \<Rightarrow> int \<times> os_state" where
  "sys_close W fd s =
     (if fd \<notin> set (open_fds s) then (-1, record_call (Ev_close fd (-1)) (s\<lparr>errno := EBADF\<rparr>))
      else case sys_fail W (clock s) of
        Some e \<Rightarrow>
          (-1, record_call (Ev_close fd (-1))
                 (s\<lparr>open_fds := removeAll fd (open_fds s), errno := e\<rparr>))
      | None \<Rightarrow>
          (0, record_call (Ev_close fd 0) (s\<lparr>open_fds := removeAll fd (open_fds s)\<rparr>)))"

definition sys_plain :: "world \<Rightarrow> (int \<Rightarrow> event) \<Rightarrow> os_state \<Rightarrow> int \<times> os_state" where
  "sys_plain W ev s =
     (case sys_fail W (clock s) of
        Some e \<Rightarrow> (-1, record_call (ev (-1)) (s\<lparr>errno := e\<rparr>))
      | None \<Rightarrow> (0, record_call (ev 0) s))"

definition sys_setsockopt :: "world \<Rightarrow> int \<Rightarrow> os_state \<Rightarrow> int \<times> os_state" where
  "sys_setsockopt W fd s = sys_plain W (Ev_setsockopt fd) s"

definition sys_bind :: "world \<Rightarrow> int \<Rightarrow> sockaddr \<Rightarrow> os_state \<Rightarrow> int \<times> os_state" where
  "sys_bind W fd addr s = sys_plain W (Ev_bind fd addr) s"

definition sys_listen :: "world \<Rightarrow> int \<Rightarrow> os_state \<Rightarrow> int \<times> os_state" where
  "sys_listen W fd s = sys_plain W (Ev_listen fd) s"

definition sys_connect :: "world \<Rightarrow> int \<Rightarrow> sockaddr \<Rightarrow> os_state \<Rightarrow> int \<times> os_state" where
  "sys_connect W fd addr s = sys_plain W (Ev_connect fd addr) s"

definition sys_accept :: "world \<Rightarrow> int \<Rightarrow> os_state \<Rightarrow> int \<times> os_state" where
  "sys_accept W lfd s =
     (case sys_fail W (clock s) of
        Some e \<Rightarrow> (-1, record_call (Ev_accept lfd (-1)) (s\<lparr>errno := e\<rparr>))
      | None \<Rightarrow>
          (let fd = lowest_free (open_fds s)
           in (fd, record_call (Ev_accept lfd fd) (s\<lparr>open_fds := fd # open_fds s\<rparr>))))"

text \<open>
  Modelled from the spec: \<^verbatim>\<open>warn\<close> and \<^verbatim>\<open>syswarn\<close> of \<^verbatim>\<open>util/messages.c\<close>, which is not
  among the sources.  They report a warning to the caller's error-reporting channel
  and return; the message is logged without its arguments.
\<close>

definition warn :: "string \<Rightarrow> os_state \<Rightarrow> os_state" where
  "warn msg s = s\<lparr>events := events s @ [Ev_warn msg]\<rparr>"

definition syswarn :: "string \<Rightarrow> os_state \<Rightarrow> os_state" where
  "syswarn msg s = s\<lparr>events := events s @ [Ev_warn msg]\<rparr>"

section \<open>util/network.c\<close>

subsection \<open>network_bind_ipv4 and network_bind_ipv6\<close>

text \<open>\<^verbatim>\<open>SO_REUSEADDR\<close> is taken to be defined, as it is on every POSIX system.\<close>

definition network_set_reuseaddr :: "world \<Rightarrow> int \<Rightarrow> os_state \<Rightarrow> os_state" where
  "network_set_reuseaddr W fd s =
     (let (r, s1) = sys_setsockopt W fd s
      in if r < 0 then syswarn ''cannot mark bind address reusable'' s1 else s1)"

definition network_bind_ipv4 ::
  "libc \<Rightarrow> world \<Rightarrow> string \<Rightarrow> 16 word \<Rightarrow> os_state \<Rightarrow> int \<times> os_state" where
  "network_bind_ipv4 L W address port s =
     (let (fd, s1) = sys_socket W AF_INET SOCK_STREAM IPPROTO_IP s
      in if fd < 0 then (-1, syswarn ''cannot create IPv4 socket'' s1)
         else
           (let s2 = network_set_reuseaddr W fd s1;
                address = (if address = ''any'' \<or> address = ''all'' then ''0.0.0.0'' else address)
            in case inet_aton L address of
                 None \<Rightarrow> (-1, warn ''invalid IPv4 address'' s2)
               | Some addr \<Rightarrow>
                   (let (r, s3) = sys_bind W fd (Sockaddr_in (htons port) addr) s2
                    in if r < 0 then (-1, syswarn ''cannot bind socket'' s3)
                       else (fd, s3))))"

definition network_bind_ipv6 ::
  "bool \<Rightarrow> libc \<Rightarrow> world \<Rightarrow> string \<Rightarrow> 16 word \<Rightarrow> os_state \<Rightarrow> int \<times> os_state" where
  "network_bind_ipv6 have_inet6 L W address port s =
     (if have_inet6 then
        (let (fd, s1) = sys_socket W AF_INET6 SOCK_STREAM IPPROTO_IP s
         in if fd < 0 then
              (-1, if errno s1 \<noteq> EAFNOSUPPORT \<and> errno s1 \<noteq> EPROTONOSUPPORT
                   then syswarn ''cannot create IPv6 socket'' s1 else s1)
            else
              (let s2 = network_set_reuseaddr W fd s1;
                   address = (if address = ''any'' \<or> address = ''all'' then ''::'' else address)
               in case inet_pton6 L address of
                    None \<Rightarrow>
                      (let s3 = warn ''invalid IPv6 address'' s2
                       in (-1, snd (sys_close W fd s3)))
                  | Some addr \<Rightarrow>
                      (let (r, s3) = sys_bind W fd (Sockaddr_in6 (htons port) addr) s2
                       in if r < 0 then
                            (let s4 = syswarn ''cannot bind socket'' s3
                             in (-1, snd (sys_close W fd s4)))
                          else (fd, s3))))
      else (-1, warn ''cannot bind: not built with IPv6 support'' s))"

subsection \<open>network_source and network_connect\<close>

record addrinfo =
  ai_family :: family
  ai_socktype :: int
  ai_protocol :: int
  ai_addr :: sockaddr

definition network_source ::
  "bool \<Rightarrow> libc \<Rightarrow> world \<Rightarrow> int \<Rightarrow> family \<Rightarrow> string option \<Rightarrow> os_state \<Rightarrow> bool \<times> os_state" where
  "network_source have_inet6 L W fd fam source s =
     (case source of
        None \<Rightarrow> (True, s)
      | Some src \<Rightarrow>
          if fam = AF_INET then
            (if src = ''all'' then (True, s)
             else case inet_aton L src of
                    None \<Rightarrow> (False, s)
                  | Some a \<Rightarrow>
                      (let (r, s1) = sys_bind W fd (Sockaddr_in 0 a) s in (r = 0, s1)))
          else if have_inet6 \<and> fam = AF_INET6 then
            (if src = ''all'' then (True, s)
             else case inet_pton6 L src of
                    None \<Rightarrow> (False, s)
                  | Some a \<Rightarrow>
                      (let (r, s1) = sys_bind W fd (Sockaddr_in6 0 a) s in (r = 0, s1)))
          else (True, s))"

text \<open>
  The \<^verbatim>\<open>for\<close> loop of \<^verbatim>\<open>network_connect\<close> over the \<^verbatim>\<open>ai_next\<close> chain, with its loop
  variable \<open>fd\<close>.  It yields \<open>fd\<close>, the flag \<open>success\<close> and the state at the loop's exit.
\<close>

fun connect_loop ::
  "bool \<Rightarrow> libc \<Rightarrow> world \<Rightarrow> string option \<Rightarrow> addrinfo list \<Rightarrow> int \<Rightarrow> os_state
     \<Rightarrow> int \<times> bool \<times> os_state" where
  "connect_loop have_inet6 L W source [] fd s = (fd, False, s)"
| "connect_loop have_inet6 L W source (ai # rest) fd s =
     (let s0 = (if fd \<ge> 0 then snd (sys_close W fd s) else s);
          (fd1, s1) = sys_socket W (ai_family ai) (ai_socktype ai) (ai_protocol ai) s0
      in if fd1 < 0 then connect_loop have_inet6 L W source rest fd1 s1
         else
           (let (ok, s2) = network_source have_inet6 L W fd1 (ai_family ai) source s1
            in if \<not> ok then connect_loop have_inet6 L W source rest fd1 s2
               else
                 (let (r, s3) = sys_connect W fd1 (ai_addr ai) s2
                  in if r = 0 then (fd1, True, s3)
                     else connect_loop have_inet6 L W source rest fd1 s3)))"

definition network_connect ::
  "bool \<Rightarrow> libc \<Rightarrow> world \<Rightarrow> addrinfo list \<Rightarrow> string option \<Rightarrow> os_state \<Rightarrow> int \<times> os_state" where
  "network_connect have_inet6 L W ai source s =
     (let (fd, success, s1) = connect_loop have_inet6 L W source ai (-1) s
      in if success then (fd, s1)
         else if fd \<ge> 0 then
           (let oerrno = errno s1;
                s2 = snd (sys_close W fd s1)
            in (-1, s2\<lparr>errno := oerrno\<rparr>))
         else (-1, s1))"


subsection \<open>network_addr_match\<close>

text \<open>
  The argument \<^verbatim>\<open>mask\<close> is \<open>msk\<close> here, \<open>None\<close> for \<^verbatim>\<open>NULL\<close>.

  \<^verbatim>\<open>strtoul(s, &end, 10)\<close> as ISO C defines it, for a 64-bit \<^verbatim>\<open>unsigned long\<close>: white
  space is skipped, one sign is accepted, and the longest run of decimal digits is
  converted.  With no digit there is no conversion: the value is 0 and \<open>end\<close> is the
  whole of \<open>s\<close>.  A value out of range is \<^verbatim>\<open>ULONG_MAX\<close>; after a minus sign the value is
  negated in the unsigned type.  The result is the value and the text left at \<open>end\<close>.
\<close>

definition isspace :: "char \<Rightarrow> bool" where
  "isspace c = (c \<in> set [CHR '' '', CHR 0x09, CHR 0x0A, CHR 0x0B, CHR 0x0C, CHR 0x0D])"

definition isdigit :: "char \<Rightarrow> bool" where
  "isdigit c = (48 \<le> (of_char c :: nat) \<and> (of_char c :: nat) \<le> 57)"

definition decimal :: "string \<Rightarrow> nat" where
  "decimal ds = foldl (\<lambda>v c. 10 * v + (of_char c - 48)) 0 ds"

definition ULONG_MAX :: nat where
  "ULONG_MAX = 2 ^ 64 - 1"

definition strtoul :: "string \<Rightarrow> nat \<times> string" where
  "strtoul s =
     (let s1 = dropWhile isspace s;
          neg = (s1 \<noteq> [] \<and> hd s1 = CHR ''-'');
          s2 = (if s1 \<noteq> [] \<and> (hd s1 = CHR ''-'' \<or> hd s1 = CHR ''+'') then tl s1 else s1);
          ds = takeWhile isdigit s2
      in if ds = [] then (0, s)
         else if decimal ds > ULONG_MAX then (ULONG_MAX, dropWhile isdigit s2)
         else if neg then ((2 ^ 64 - decimal ds) mod 2 ^ 64, dropWhile isdigit s2)
         else (decimal ds, dropWhile isdigit s2))"

text \<open>
  \<^verbatim>\<open>for (bits = 0, i = 0; i < cidr; i++) bits |= (1 << (31 - i));\<close>  The constant \<open>1\<close> is
  a 32-bit \<^verbatim>\<open>int\<close>, shifted as one (into the sign bit when \<open>i\<close> is 0, which compilers
  carry out in two's complement) and then converted to the \<^verbatim>\<open>unsigned long\<close> \<open>bits\<close>
  with its sign.  The loop only runs with \<open>cidr \<le> 32\<close>, so the counters do not wrap
  and are natural numbers here.  \<^verbatim>\<open>htonl\<close> takes the low 32 bits of \<open>bits\<close>, and
  \<open>addr_mask\<close> then holds a 32-bit value, as \<open>s_addr\<close> does.
\<close>

function cidr_bits :: "nat \<Rightarrow> nat \<Rightarrow> 64 word \<Rightarrow> 64 word" where
  "cidr_bits cidr i bits =
     (if i < cidr then cidr_bits cidr (Suc i) (bits OR scast (push_bit (31 - i) (1 :: 32 word)))
      else bits)"
  by pat_completeness auto
termination
  by (relation "measure (\<lambda>(cidr, i, bits). cidr - i)") auto

declare cidr_bits.simps [simp del]

text \<open>
  \<^verbatim>\<open>for (addr_mask = 0, bits = 0; bits < cidr % 8; bits++) addr_mask |= (1 << (7 - bits));\<close>
  The mask is below 256 and is only used against bytes: it is a byte here.
\<close>

function byte_mask :: "nat \<Rightarrow> nat \<Rightarrow> 8 word \<Rightarrow> 8 word" where
  "byte_mask n bits addr_mask =
     (if bits < n then byte_mask n (Suc bits) (addr_mask OR push_bit (7 - bits) 1)
      else addr_mask)"
  by pat_completeness auto
termination
  by (relation "measure (\<lambda>(n, bits, addr_mask). n - bits)") auto

declare byte_mask.simps [simp del]

text \<open>\<^verbatim>\<open>for (i = 0; i * 8 < cidr; i++)\<close> over the bytes of the two IPv6 addresses.\<close>

function match6_loop :: "in6_addr \<Rightarrow> in6_addr \<Rightarrow> nat \<Rightarrow> nat \<Rightarrow> bool" where
  "match6_loop a6 b6 cidr i =
     (if i * 8 < cidr then
        (if (i + 1) * 8 \<le> cidr then
           (if s6_addr a6 i \<noteq> s6_addr b6 i then False
            else match6_loop a6 b6 cidr (Suc i))
         else
           (let addr_mask = byte_mask (cidr mod 8) 0 0
            in if (s6_addr a6 i AND addr_mask) \<noteq> (s6_addr b6 i AND addr_mask) then False
               else match6_loop a6 b6 cidr (Suc i)))
      else True)"
  by pat_completeness auto
termination
  by (relation "measure (\<lambda>(a6, b6, cidr, i). cidr - i * 8)") auto

declare match6_loop.simps [simp del]

definition addr_match_ipv6 :: "libc \<Rightarrow> string \<Rightarrow> string \<Rightarrow> string option \<Rightarrow> bool" where
  "addr_match_ipv6 L a b msk =
     (case inet_pton6 L a of
        None \<Rightarrow> False
      | Some a6 \<Rightarrow>
          (case inet_pton6 L b of
             None \<Rightarrow> False
           | Some b6 \<Rightarrow>
               (case msk of
                  None \<Rightarrow> match6_loop a6 b6 128 0
                | Some m \<Rightarrow>
                    (let (cidr, endp) = strtoul m
                     in if cidr > 128 \<or> endp \<noteq> [] then False
                        else match6_loop a6 b6 cidr 0))))"

definition network_addr_match :: "bool \<Rightarrow> libc \<Rightarrow> string \<Rightarrow> string \<Rightarrow> string option \<Rightarrow> bool" where
  "network_addr_match have_inet6 L a b msk =
     (case (inet_aton L a, inet_aton L b) of
        (Some a4, Some b4) \<Rightarrow>
          (case msk of
             None \<Rightarrow>
               (let addr_mask = htonl 0xffffffff
                in (a4 AND addr_mask) = (b4 AND addr_mask))
           | Some m \<Rightarrow>
               if CHR ''.'' \<notin> set m then
                 (let (cidr, endp) = strtoul m
                  in if cidr > 32 \<or> endp \<noteq> [] then False
                     else
                       (let bits = cidr_bits cidr 0 0;
                            addr_mask = htonl (ucast bits)
                        in (a4 AND addr_mask) = (b4 AND addr_mask)))
               else
                 (case inet_aton L m of
                    Some tmp \<Rightarrow> (a4 AND tmp) = (b4 AND tmp)
                  | None \<Rightarrow> False))
      | _ \<Rightarrow> if have_inet6 then addr_match_ipv6 L a b msk else False)"

section \<open>server/remctld.c\<close>

text \<open>
  How a run of \<^verbatim>\<open>main\<close> ends: \<^verbatim>\<open>exit\<close> or \<^verbatim>\<open>return\<close> with a status, a fatal \<^verbatim>\<open>die\<close> or
  \<^verbatim>\<open>sysdie\<close> with its message, or not at all: \<open>Serving\<close> is a run still in the accept
  loop after the number of iterations that it was observed for.

  Modelled from the spec: \<^verbatim>\<open>die\<close> and \<^verbatim>\<open>sysdie\<close> of \<^verbatim>\<open>util/messages.c\<close>, which is not among
  the sources.  They are fatal: the process terminates there.
\<close>

datatype outcome = Exited int | Died string | Serving

definition create_socket :: "world \<Rightarrow> 16 word \<Rightarrow> os_state \<Rightarrow> int \<times> os_state" where
  "create_socket W port s0 =
     (let saddr = Sockaddr_in (htons port) 0;
          (s, s1) = sys_socket W AF_INET SOCK_STREAM 0 s0
      in if s < 0 then (-1, syswarn ''error creating socket'' s1)
         else
           (let s2 = snd (sys_setsockopt W s s1);
                (r, s3) = sys_bind W s saddr s2
            in if r < 0 then
                 (-1, snd (sys_close W s (syswarn ''error binding socket'' s3)))
               else
                 (let (r, s4) = sys_listen W s s3
                  in if r < 0 then
                       (-1, snd (sys_close W s (syswarn ''error listening on socket'' s4)))
                     else (s, s4))))"

definition gss_call :: "world \<Rightarrow> string \<Rightarrow> os_state \<Rightarrow> nat \<times> os_state" where
  "gss_call W name s =
     (gss_major W (clock s), record_call (Ev_gss name (gss_major W (clock s))) s)"

text \<open>
  \<open>acquire_creds\<close> returns whether it succeeded and the credential stored in
  \<open>*creds\<close>, which is named by the service.
\<close>

definition acquire_creds :: "world \<Rightarrow> string \<Rightarrow> os_state \<Rightarrow> (bool \<times> string option) \<times> os_state" where
  "acquire_creds W service s =
     (let (major, s1) = gss_call W ''gss_import_name'' s
      in if major \<noteq> 0 then ((False, None), warn ''while importing name'' s1)
         else
           (let (major, s2) = gss_call W ''gss_acquire_cred'' s1
            in if major \<noteq> 0 then ((False, None), warn ''while acquiring credentials'' s2)
               else
                 (let s3 = snd (gss_call W ''gss_release_name'' s2)
                  in ((True, Some service), s3))))"

text \<open>
  \<^verbatim>\<open>server_new_client\<close>, \<^verbatim>\<open>server_v1_handle_commands\<close>, \<^verbatim>\<open>server_v2_handle_commands\<close> and
  \<^verbatim>\<open>server_free_client\<close> are the session layer's.  Each call is logged; what they do
  to descriptors is theirs and is not part of this model.
\<close>

definition server_handle_connection :: "world \<Rightarrow> int \<Rightarrow> string option \<Rightarrow> os_state \<Rightarrow> os_state" where
  "server_handle_connection W fd creds s =
     (let client = new_client W (clock s);
          s1 = record_call (Ev_new_client fd client) s
      in case client of
           None \<Rightarrow> snd (sys_close W fd s1)
         | Some protocol \<Rightarrow>
             (let s2 = (if protocol = 1 then record_call (Ev_handle_commands 1 fd) s1
                        else record_call (Ev_handle_commands 2 fd) s1)
              in record_call (Ev_free_client fd) s2))"

text \<open>
  The options as \<^verbatim>\<open>getopt(argc, argv, "df:hmP:p:s:v")\<close> yields them one by one, and the
  variables of \<^verbatim>\<open>main\<close> that the \<^verbatim>\<open>switch\<close> sets.
\<close>

datatype cmd_option =
    Opt_d | Opt_f string | Opt_h | Opt_m | Opt_P string | Opt_p string | Opt_s string
  | Opt_v | Opt_unknown

record settings =
  service :: "string option"
  pid_path :: "string option"
  port :: "16 word"
  do_standalone :: bool
  conffile :: string

definition CONFIG_FILE :: string where
  "CONFIG_FILE = ''remctl.conf''"

definition initial_settings :: settings where
  "initial_settings =
     \<lparr>service = None, pid_path = None, port = 4444, do_standalone = False,
      conffile = CONFIG_FILE\<rparr>"

fun parse_options :: "libc \<Rightarrow> cmd_option list \<Rightarrow> settings \<Rightarrow> outcome + settings" where
  "parse_options L [] v = Inr v"
| "parse_options L (Opt_d # rest) v = parse_options L rest v"
| "parse_options L (Opt_f optarg # rest) v = parse_options L rest (v\<lparr>conffile := optarg\<rparr>)"
| "parse_options L (Opt_h # rest) v = Inl (Exited 0)"
| "parse_options L (Opt_m # rest) v = parse_options L rest (v\<lparr>do_standalone := True\<rparr>)"
| "parse_options L (Opt_P optarg # rest) v = parse_options L rest (v\<lparr>pid_path := Some optarg\<rparr>)"
| "parse_options L (Opt_p optarg # rest) v =
     parse_options L rest (v\<lparr>port := word_of_int (atoi L optarg)\<rparr>)"
| "parse_options L (Opt_s optarg # rest) v = parse_options L rest (v\<lparr>service := Some optarg\<rparr>)"
| "parse_options L (Opt_v # rest) v = Inl (Exited 0)"
| "parse_options L (Opt_unknown # rest) v = Inl (Died ''invalid usage'')"

text \<open>
  The \<^verbatim>\<open>do { ... } while (1)\<close> of \<^verbatim>\<open>main\<close> never exits.  \<open>accept_loop W n\<close> is its first
  \<open>n\<close> iterations.
\<close>

fun accept_loop :: "world \<Rightarrow> nat \<Rightarrow> int \<Rightarrow> string option \<Rightarrow> os_state \<Rightarrow> os_state" where
  "accept_loop W 0 stmp creds s0 = s0"
| "accept_loop W (Suc n) stmp creds s0 =
     (let (s, s1) = sys_accept W stmp s0
      in if s < 0 then accept_loop W n stmp creds (syswarn ''error accepting connection'' s1)
         else accept_loop W n stmp creds (server_handle_connection W s creds s1))"

definition write_pid_file :: "world \<Rightarrow> string \<Rightarrow> os_state \<Rightarrow> bool \<times> os_state" where
  "write_pid_file W path s =
     (case sys_fail W (clock s) of
        Some e \<Rightarrow> (False, record_call (Ev_pid_file path False) (s\<lparr>errno := e\<rparr>))
      | None \<Rightarrow> (True, record_call (Ev_pid_file path True) s))"

definition main ::
  "libc \<Rightarrow> world \<Rightarrow> nat \<Rightarrow> cmd_option list \<Rightarrow> os_state \<Rightarrow> outcome \<times> os_state" where
  "main L W n argv s0 =
     (let s1 = record_call (Ev_alarm (60 * 60)) s0
      in case parse_options L argv initial_settings of
           Inl stop \<Rightarrow> (stop, s1)
         | Inr v \<Rightarrow>
             (let s2 = record_call (Ev_config_load (conffile v) (config_ok W (conffile v))) s1
              in if \<not> config_ok W (conffile v) then (Died ''cannot read configuration file'', s2)
                 else
                   (let ((ok, creds), s3) =
                          (case service v of
                             None \<Rightarrow> ((True, None), s2)
                           | Some sv \<Rightarrow> acquire_creds W sv s2)
                    in if \<not> ok then (Died ''unable to acquire creds, aborting'', s3)
                       else if \<not> do_standalone v then
                         (let s4 = server_handle_connection W 0 creds s3;
                              s5 = (if creds \<noteq> None then snd (gss_call W ''gss_release_cred'' s4)
                                    else s4)
                          in (Exited 0, s5))
                       else
                         (let s4 = record_call (Ev_alarm 0) s3;
                              (stmp, s5) = create_socket W (port v) s4
                          in if stmp < 0 then (Died ''cannot create socket'', s5)
                             else
                               (let (written, s6) =
                                      (case pid_path v of
                                         None \<Rightarrow> (True, s5)
                                       | Some path \<Rightarrow> write_pid_file W path s5)
                                in if \<not> written then (Died ''cannot create PID file'', s6)
                                   else (Serving, accept_loop W n stmp creds s6))))))"


section \<open>A C library to run the functions on concrete text\<close>

text \<open>
  \<open>sample_libc\<close> stands for the C library in the examples.  It reads the plain forms
  of an address only, and reads them as the C library does: its \<open>inet_aton\<close> reads four
  decimal numbers up to 255, without a leading zero, separated by dots; its
  \<open>inet_pton6\<close> reads groups of one to four hexadecimal digits separated by colons,
  eight of them or fewer around one \<open>::\<close>; its \<open>atoi\<close> skips white space, reads a sign and
  then decimal digits.  The forms that it refuses and the C library reads are not
  used below: for \<^verbatim>\<open>inet_aton\<close> fewer than four parts and octal or hexadecimal parts,
  for \<^verbatim>\<open>inet_pton\<close> a dotted quad in the last 32 bits.  Only the examples run on
  \<open>sample_libc\<close>; the general theorems hold for every library.
\<close>

fun split_at :: "char \<Rightarrow> string \<Rightarrow> string list" where
  "split_at c [] = [[]]"
| "split_at c (x # xs) =
     (if x = c then [] # split_at c xs
      else case split_at c xs of g # gs \<Rightarrow> (x # g) # gs | [] \<Rightarrow> [[x]])"

definition quad_part :: "string \<Rightarrow> nat option" where
  "quad_part ds =
     (if ds \<noteq> [] \<and> length ds \<le> 3 \<and> list_all isdigit ds \<and> decimal ds \<le> 255 \<and>
         (length ds = 1 \<or> hd ds \<noteq> CHR ''0'')
      then Some (decimal ds) else None)"

definition sample_inet_aton :: "string \<Rightarrow> in_addr option" where
  "sample_inet_aton s =
     (case map quad_part (split_at CHR ''.'' s) of
        [Some a, Some b, Some c, Some d] \<Rightarrow> Some (word_of_nat (((a * 256 + b) * 256 + c) * 256 + d))
      | _ \<Rightarrow> None)"

definition hex_digit :: "char \<Rightarrow> nat option" where
  "hex_digit c =
     (let n = (of_char c :: nat)
      in if 48 \<le> n \<and> n \<le> 57 then Some (n - 48)
         else if 97 \<le> n \<and> n \<le> 102 then Some (n - 87)
         else if 65 \<le> n \<and> n \<le> 70 then Some (n - 55)
         else None)"

definition hex_group :: "string \<Rightarrow> nat option" where
  "hex_group ds =
     (if ds \<noteq> [] \<and> length ds \<le> 4 \<and> list_all (\<lambda>c. hex_digit c \<noteq> None) ds
      then Some (foldl (\<lambda>v c. 16 * v + the (hex_digit c)) 0 ds) else None)"

fun all_some :: "'a option list \<Rightarrow> 'a list option" where
  "all_some [] = Some []"
| "all_some (None # xs) = None"
| "all_some (Some x # xs) = (case all_some xs of None \<Rightarrow> None | Some ys \<Rightarrow> Some (x # ys))"

definition hex_groups :: "string \<Rightarrow> nat list option" where
  "hex_groups s = (if s = [] then Some [] else all_some (map hex_group (split_at CHR '':'' s)))"

fun split_double_colon :: "string \<Rightarrow> (string \<times> string) option" where
  "split_double_colon (x # y # r) =
     (if x = CHR '':'' \<and> y = CHR '':'' then Some ([], r)
      else case split_double_colon (y # r) of
             None \<Rightarrow> None
           | Some (l, r') \<Rightarrow> Some (x # l, r'))"
| "split_double_colon s = None"

definition in6_of_groups :: "nat list \<Rightarrow> in6_addr" where
  "in6_of_groups gs = foldl (\<lambda>w g. push_bit 16 w OR word_of_nat g) 0 gs"

definition sample_inet_pton6 :: "string \<Rightarrow> in6_addr option" where
  "sample_inet_pton6 s =
     (case split_double_colon s of
        Some (l, r) \<Rightarrow>
          (case (hex_groups l, hex_groups r) of
             (Some gl, Some gr) \<Rightarrow>
               if length gl + length gr \<le> 7
               then Some (in6_of_groups (gl @ replicate (8 - (length gl + length gr)) 0 @ gr))
               else None
           | _ \<Rightarrow> None)
      | None \<Rightarrow>
          (case hex_groups s of
             Some gs \<Rightarrow> if length gs = 8 then Some (in6_of_groups gs) else None
           | None \<Rightarrow> None))"

definition sample_atoi :: "string \<Rightarrow> int" where
  "sample_atoi s =
     (case dropWhile isspace s of
        [] \<Rightarrow> 0
      | c # r \<Rightarrow>
          if c = CHR ''-'' then - int (decimal (takeWhile isdigit r))
          else if c = CHR ''+'' then int (decimal (takeWhile isdigit r))
          else int (decimal (takeWhile isdigit (c # r))))"

definition sample_libc :: libc where
  "sample_libc =
     \<lparr>inet_aton = sample_inet_aton, inet_pton6 = sample_inet_pton6, atoi = sample_atoi\<rparr>"

text \<open>
  The world in which every call succeeds, the world in which only call \<open>k\<close> fails, with
  \<open>errno\<close> \<open>e\<close>, and a process that has its three standard descriptors open.
\<close>

definition calm_world :: world where
  "calm_world = \<lparr>sys_fail = (\<lambda>n. None), gss_major = (\<lambda>n. 0), new_client = (\<lambda>n. Some 2), config_ok = (\<lambda>f. True)\<rparr>"

definition failing_world :: "nat \<Rightarrow> int \<Rightarrow> world" where
  "failing_world k e = calm_world\<lparr>sys_fail := (\<lambda>n. if n = k then Some e else None)\<rparr>"

definition initial_state :: os_state where
  "initial_state = \<lparr>open_fds = [0, 1, 2], errno = 0, clock = 0, events = []\<rparr>"


section \<open>Reading the log of a call to network_connect\<close>

text \<open>
  \<open>new_events s s'\<close> are the calls logged between two states.  \<open>socket_calls\<close> lists
  the family, type and protocol of each \<^verbatim>\<open>socket\<close> call of a log, \<open>socket_snapshots\<close>
  the descriptors that were open when each was made.  \<open>is_connected\<close> holds of a
  \<^verbatim>\<open>connect\<close> call that succeeded, \<open>is_close\<close> of a \<^verbatim>\<open>close\<close> call.  \<open>attempts_of\<close> is a log
  without the \<^verbatim>\<open>close\<close> that ends it, when one does.  \<open>errno_after W c k e\<close> is \<^verbatim>\<open>errno\<close>
  after the calls numbered \<open>c\<close> to \<open>c + k - 1\<close>, starting from \<open>e\<close>: the code of the most
  recent one that failed.

  \<open>attempt\<close> is the body of the loop of \<open>connect_loop\<close>, run once;  \<open>loop_inv base fd s\<close>
  says that the descriptors open in \<open>s\<close> are those of \<open>base\<close> and the loop's \<open>fd\<close>, when
  it holds a socket; \<open>tracks W s s1\<close> that \<open>s1\<close> follows \<open>s\<close> by some calls, each logged,
  with \<^verbatim>\<open>errno\<close> as these calls leave it.

  \<open>source_requirement\<close> is what \<open>network_source\<close> asks of a socket of a family before
  it may be connected: nothing (no source, the source \<^verbatim>\<open>all\<close>, or a family that is neither
  IPv4 nor, when built with IPv6, IPv6), a \<^verbatim>\<open>bind\<close> to the source address with port 0, or,
  when the text of the source is not an address of the family, that the socket is not
  used.  \<open>next_call\<close> relates a logged call to the call logged after it, \<open>None\<close> when it
  is the last: after a \<^verbatim>\<open>socket\<close> that failed, the next \<^verbatim>\<open>socket\<close>; after one that
  succeeded, what the source requires of it, the \<^verbatim>\<open>connect\<close>, the \<^verbatim>\<open>bind\<close> or the \<^verbatim>\<open>close\<close>
  of its descriptor; after a \<^verbatim>\<open>bind\<close> that succeeded, the \<^verbatim>\<open>connect\<close>; after a \<^verbatim>\<open>bind\<close> or
  a \<^verbatim>\<open>connect\<close> that failed, the \<^verbatim>\<open>close\<close> of the descriptor; after a \<^verbatim>\<open>close\<close>, the next
  \<^verbatim>\<open>socket\<close>; after a \<^verbatim>\<open>connect\<close> that succeeded, nothing.  \<open>followed P evs nxt\<close> says
  that each call of \<open>evs\<close> is related by \<open>P\<close> to the one after it, and the last to \<open>nxt\<close>.
  \<open>connect_addrs\<close> lists the addresses of the \<^verbatim>\<open>connect\<close> calls of a log.  \<open>starts\<close> and
  \<open>ends\<close> tell how the log of an iteration begins and what may follow it, from the
  loop's \<open>fd\<close> before and after.
\<close>

definition ai_triple :: "addrinfo \<Rightarrow> family \<times> int \<times> int" where
  "ai_triple ai = (ai_family ai, ai_socktype ai, ai_protocol ai)"

fun socket_calls :: "event list \<Rightarrow> (family \<times> int \<times> int) list" where
  "socket_calls [] = []"
| "socket_calls (e # es) =
     (case e of Ev_socket d t p snap r \<Rightarrow> (d, t, p) # socket_calls es | _ \<Rightarrow> socket_calls es)"

fun socket_snapshots :: "event list \<Rightarrow> int list list" where
  "socket_snapshots [] = []"
| "socket_snapshots (e # es) =
     (case e of Ev_socket d t p snap r \<Rightarrow> snap # socket_snapshots es | _ \<Rightarrow> socket_snapshots es)"

definition is_connected :: "event \<Rightarrow> bool" where
  "is_connected e = (case e of Ev_connect fd a r \<Rightarrow> r = 0 | _ \<Rightarrow> False)"

definition attempt ::
  "bool \<Rightarrow> libc \<Rightarrow> world \<Rightarrow> string option \<Rightarrow> addrinfo \<Rightarrow> int \<Rightarrow> os_state
     \<Rightarrow> int \<times> bool \<times> os_state" where
  "attempt have_inet6 L W source ai fd s =
     (let s0 = (if fd \<ge> 0 then snd (sys_close W fd s) else s);
          (fd1, s1) = sys_socket W (ai_family ai) (ai_socktype ai) (ai_protocol ai) s0
      in if fd1 < 0 then (fd1, False, s1)
         else
           (let (ok, s2) = network_source have_inet6 L W fd1 (ai_family ai) source s1
            in if \<not> ok then (fd1, False, s2)
               else
                 (let (r, s3) = sys_connect W fd1 (ai_addr ai) s2
                  in (fd1, r = 0, s3))))"

fun errno_after :: "world \<Rightarrow> nat \<Rightarrow> nat \<Rightarrow> int \<Rightarrow> int" where
  "errno_after W c 0 e = e"
| "errno_after W c (Suc k) e =
     errno_after W (Suc c) k (case sys_fail W c of None \<Rightarrow> e | Some e' \<Rightarrow> e')"

definition is_close :: "event \<Rightarrow> bool" where
  "is_close e = (case e of Ev_close fd r \<Rightarrow> True | _ \<Rightarrow> False)"

definition attempts_of :: "event list \<Rightarrow> event list" where
  "attempts_of evs = (if evs \<noteq> [] \<and> is_close (last evs) then butlast evs else evs)"

definition tracks :: "world \<Rightarrow> os_state \<Rightarrow> os_state \<Rightarrow> bool" where
  "tracks W s s1 =
     (\<exists>k. clock s1 = clock s + k \<and> length (events s1) = length (events s) + k \<and>
          errno s1 = errno_after W (clock s) k (errno s))"

definition new_events :: "os_state \<Rightarrow> os_state \<Rightarrow> event list" where
  "new_events s s' = drop (length (events s)) (events s')"

definition loop_inv :: "int list \<Rightarrow> int \<Rightarrow> os_state \<Rightarrow> bool" where
  "loop_inv base fd s =
     (if fd \<ge> 0 then open_fds s = fd # base \<and> fd \<notin> set base else open_fds s = base)"

datatype requirement = No_binding | Bind_to sockaddr | Unusable

definition source_requirement :: "bool \<Rightarrow> libc \<Rightarrow> family \<Rightarrow> string option \<Rightarrow> requirement" where
  "source_requirement have_inet6 L fam source =
     (case source of
        None \<Rightarrow> No_binding
      | Some src \<Rightarrow>
          if src = ''all'' then No_binding
          else if fam = AF_INET then
            (case inet_aton L src of None \<Rightarrow> Unusable | Some a \<Rightarrow> Bind_to (Sockaddr_in 0 a))
          else if have_inet6 \<and> fam = AF_INET6 then
            (case inet_pton6 L src of None \<Rightarrow> Unusable | Some a \<Rightarrow> Bind_to (Sockaddr_in6 0 a))
          else No_binding)"

definition is_socket :: "event option \<Rightarrow> bool" where
  "is_socket nxt = (case nxt of Some (Ev_socket d t p snap r) \<Rightarrow> True | _ \<Rightarrow> False)"

definition is_close_of :: "int \<Rightarrow> event option \<Rightarrow> bool" where
  "is_close_of fd nxt = (case nxt of Some (Ev_close fd' r) \<Rightarrow> fd' = fd | _ \<Rightarrow> False)"

definition is_connect_of :: "int \<Rightarrow> event option \<Rightarrow> bool" where
  "is_connect_of fd nxt = (case nxt of Some (Ev_connect fd' a r) \<Rightarrow> fd' = fd | _ \<Rightarrow> False)"

definition is_bind_of :: "int \<Rightarrow> sockaddr \<Rightarrow> event option \<Rightarrow> bool" where
  "is_bind_of fd b nxt = (case nxt of Some (Ev_bind fd' b' r) \<Rightarrow> fd' = fd \<and> b' = b | _ \<Rightarrow> False)"

definition next_call :: "bool \<Rightarrow> libc \<Rightarrow> string option \<Rightarrow> event \<Rightarrow> event option \<Rightarrow> bool" where
  "next_call have_inet6 L source e nxt =
     (case e of
        Ev_socket d t p snap fd \<Rightarrow>
          if fd < 0 then nxt = None \<or> is_socket nxt
          else (case source_requirement have_inet6 L d source of
                  No_binding \<Rightarrow> is_connect_of fd nxt
                | Bind_to b \<Rightarrow> is_bind_of fd b nxt
                | Unusable \<Rightarrow> is_close_of fd nxt)
      | Ev_bind fd b r \<Rightarrow> if r = 0 then is_connect_of fd nxt else is_close_of fd nxt
      | Ev_connect fd a r \<Rightarrow> if r = 0 then nxt = None else is_close_of fd nxt
      | Ev_close fd r \<Rightarrow> nxt = None \<or> is_socket nxt
      | _ \<Rightarrow> False)"

fun followed :: "(event \<Rightarrow> event option \<Rightarrow> bool) \<Rightarrow> event list \<Rightarrow> event option \<Rightarrow> bool" where
  "followed P [] nxt = True"
| "followed P (e # es) nxt = (P e (case es of [] \<Rightarrow> nxt | e' # es' \<Rightarrow> Some e') \<and> followed P es nxt)"

fun connect_addrs :: "event list \<Rightarrow> sockaddr list" where
  "connect_addrs [] = []"
| "connect_addrs (e # es) =
     (case e of Ev_connect fd a r \<Rightarrow> a # connect_addrs es | _ \<Rightarrow> connect_addrs es)"

definition starts :: "int \<Rightarrow> event \<Rightarrow> bool" where
  "starts fd e = (if 0 \<le> fd then is_close_of fd (Some e) else is_socket (Some e))"

definition ends :: "bool \<Rightarrow> int \<Rightarrow> event option \<Rightarrow> bool" where
  "ends ok fd nxt =
     (if ok then nxt = None else if 0 \<le> fd then is_close_of fd nxt else nxt = None \<or> is_socket nxt)"


text \<open>
  Three candidates for the examples, the first one an IPv6 address, and a world in which
  the \<^verbatim>\<open>connect\<close> to each of two candidates is refused (\<^verbatim>\<open>ECONNREFUSED\<close>, 111) and the last
  \<^verbatim>\<open>close\<close> fails (\<^verbatim>\<open>EIO\<close>, 5).
\<close>

definition candidate_c :: addrinfo where
  "candidate_c = \<lparr>ai_family = AF_INET6, ai_socktype = 1, ai_protocol = 6,
                    ai_addr = Sockaddr_in6 4373 0x20010db8000000000000000000000001\<rparr>"

definition candidate_a :: addrinfo where
  "candidate_a = \<lparr>ai_family = AF_INET, ai_socktype = 1, ai_protocol = 6,
                    ai_addr = Sockaddr_in 4373 0xC0000201\<rparr>"

definition candidate_b :: addrinfo where
  "candidate_b = \<lparr>ai_family = AF_INET, ai_socktype = 1, ai_protocol = 6,
                    ai_addr = Sockaddr_in 4373 0xC0000202\<rparr>"

definition refusing_world :: world where
  "refusing_world =
     calm_world\<lparr>sys_fail := (\<lambda>n. if n = 1 \<or> n = 4 then Some 111 else if n = 5 then Some 5 else None)\<rparr>"


section \<open>Reading the log of the daemon\<close>

text \<open>
  \<open>cred_failure\<close> holds of a call of \<^verbatim>\<open>gss_import_name\<close> or \<^verbatim>\<open>gss_acquire_cred\<close> that did
  not complete: the two calls by which \<open>acquire_creds\<close> acquires the credential of the
  requested service.  \<open>is_socket_or_accept\<close> holds of the calls that create, bind and
  listen on a socket and of \<^verbatim>\<open>accept\<close>.  \<open>only_events P s s'\<close>: the state \<open>s'\<close> follows \<open>s\<close>
  and every call logged in between satisfies \<open>P\<close>.

  What one iteration of the accept loop does: the \<^verbatim>\<open>accept\<close> fails, and the failure is
  reported; or a connection is accepted and \<^verbatim>\<open>server_new_client\<close> fails for it, and it is
  closed; or a connection is accepted and served under its protocol version.
  \<open>block stmp b\<close> is the log of such an iteration on the listening socket \<open>stmp\<close>, and
  \<open>block_ok b\<close> tells that the descriptor handed to the handler, if any, is one that
  \<^verbatim>\<open>accept\<close> can return: not negative.  \<open>is_accept\<close> holds of the calls of \<^verbatim>\<open>accept\<close>.
\<close>

definition cred_failure :: "event \<Rightarrow> bool" where
  "cred_failure e =
     (case e of
        Ev_gss name major \<Rightarrow>
          major \<noteq> 0 \<and> (name = ''gss_import_name'' \<or> name = ''gss_acquire_cred'')
      | _ \<Rightarrow> False)"

definition is_socket_or_accept :: "event \<Rightarrow> bool" where
  "is_socket_or_accept e =
     (case e of
        Ev_socket d t p snap r \<Rightarrow> True
      | Ev_bind fd a r \<Rightarrow> True
      | Ev_listen fd r \<Rightarrow> True
      | Ev_accept lfd r \<Rightarrow> True
      | _ \<Rightarrow> False)"

definition only_events :: "(event \<Rightarrow> bool) \<Rightarrow> os_state \<Rightarrow> os_state \<Rightarrow> bool" where
  "only_events P s s' = (\<exists>evs. events s' = events s @ evs \<and> list_all P evs)"

datatype served = Accept_failed | Handler_failed int int | Served int int

fun block :: "int \<Rightarrow> served \<Rightarrow> event list" where
  "block stmp Accept_failed = [Ev_accept stmp (-1), Ev_warn ''error accepting connection'']"
| "block stmp (Handler_failed fd r) = [Ev_accept stmp fd, Ev_new_client fd None, Ev_close fd r]"
| "block stmp (Served fd v) =
     [Ev_accept stmp fd, Ev_new_client fd (Some v),
      Ev_handle_commands (if v = 1 then 1 else 2) fd, Ev_free_client fd]"

fun block_ok :: "served \<Rightarrow> bool" where
  "block_ok Accept_failed = True"
| "block_ok (Handler_failed fd r) = (0 \<le> fd)"
| "block_ok (Served fd v) = (0 \<le> fd)"

definition is_accept :: "event \<Rightarrow> bool" where
  "is_accept e = (case e of Ev_accept lfd r \<Rightarrow> True | _ \<Rightarrow> False)"


text \<open>
  \<open>serve_one\<close> is the body of the loop of \<open>accept_loop\<close>, run once; \<open>run_mode\<close> is the part
  of \<open>main\<close> that follows the acquisition of the credentials.
\<close>

definition serve_one :: "world \<Rightarrow> int \<Rightarrow> string option \<Rightarrow> os_state \<Rightarrow> os_state" where
  "serve_one W stmp creds s0 =
     (let (s, s1) = sys_accept W stmp s0
      in if s < 0 then syswarn ''error accepting connection'' s1
         else server_handle_connection W s creds s1)"

definition run_mode ::
  "world \<Rightarrow> nat \<Rightarrow> settings \<Rightarrow> string option \<Rightarrow> os_state \<Rightarrow> outcome \<times> os_state" where
  "run_mode W n v creds s3 =
     (if \<not> do_standalone v then
        (let s4 = server_handle_connection W 0 creds s3;
             s5 = (if creds \<noteq> None then snd (gss_call W ''gss_release_cred'' s4) else s4)
         in (Exited 0, s5))
      else
        (let s4 = record_call (Ev_alarm 0) s3;
             (stmp, s5) = create_socket W (port v) s4
         in if stmp < 0 then (Died ''cannot create socket'', s5)
            else
              (let (written, s6) =
                     (case pid_path v of
                        None \<Rightarrow> (True, s5)
                      | Some path \<Rightarrow> write_pid_file W path s5)
               in if \<not> written then (Died ''cannot create PID file'', s6)
                  else (Serving, accept_loop W n stmp creds s6))))"


text \<open>
  A world in which \<^verbatim>\<open>gss_acquire_cred\<close> fails (\<^verbatim>\<open>GSS_S_FAILURE\<close>); a world in which the
  eighth call fails (\<^verbatim>\<open>EMFILE\<close>, 24), which is the first \<^verbatim>\<open>accept\<close> of a standalone daemon
  started without a service and without a PID file, and in which \<^verbatim>\<open>server_new_client\<close>
  fails for the first connection accepted.
\<close>

definition no_creds_world :: world where
  "no_creds_world = calm_world\<lparr>gss_major := (\<lambda>n. if n = 3 then 851968 else 0)\<rparr>"

definition rough_world :: world where
  "rough_world =
     calm_world\<lparr>sys_fail := (\<lambda>n. if n = 7 then Some 24 else None),
                 new_client := (\<lambda>n. if n = 9 then None else Some 2)\<rparr>"


section \<open>The masks as the specification words them\<close>

text \<open>
  A decimal CIDR prefix is a non-empty string of decimal digits.  \<open>cidr_mask32 n\<close> is
  the left-justified 32-bit mask of \<open>n\<close> bits.  \<open>ipv4_mask_spec\<close> is the bitmask that the
  specification gives an IPv4 comparison: all 32 bits when the mask is absent, the
  left-justified mask of a decimal prefix 0 to 32 when the mask has no dot, the
  dotted quad otherwise; \<open>None\<close> when the mask text is not of its form.
  \<open>ipv6_prefix_spec\<close> is the prefix length of an IPv6 comparison: 128 when the mask is
  absent, a decimal prefix 0 to 128 otherwise.
  \<open>same_prefix n x y\<close>: the first \<open>n\<close> bits of two 128-bit addresses agree.
\<close>

definition is_decimal :: "string \<Rightarrow> bool" where
  "is_decimal ds = (ds \<noteq> [] \<and> list_all isdigit ds)"

definition cidr_mask32 :: "nat \<Rightarrow> 32 word" where
  "cidr_mask32 n = NOT (mask (32 - n))"

definition ipv4_mask_spec :: "libc \<Rightarrow> string option \<Rightarrow> 32 word option" where
  "ipv4_mask_spec L msk =
     (case msk of
        None \<Rightarrow> Some 0xFFFFFFFF
      | Some m \<Rightarrow>
          if CHR ''.'' \<notin> set m then
            (if is_decimal m \<and> decimal m \<le> 32 then Some (cidr_mask32 (decimal m)) else None)
          else inet_aton L m)"

definition ipv6_prefix_spec :: "string option \<Rightarrow> nat option" where
  "ipv6_prefix_spec msk =
     (case msk of
        None \<Rightarrow> Some 128
      | Some m \<Rightarrow> if is_decimal m \<and> decimal m \<le> 128 then Some (decimal m) else None)"

definition same_prefix :: "nat \<Rightarrow> in6_addr \<Rightarrow> in6_addr \<Rightarrow> bool" where
  "same_prefix n x y = (drop_bit (128 - n) x = drop_bit (128 - n) y)"

section \<open>Comparing socket addresses\<close>

lemma ffff_mask: "(0xFFFF :: 128 word) = mask 16"
  by (simp add: mask_eq_exp_minus_1)

lemma v4mapped_alt: "v4mapped x = push_bit 32 (mask 16) OR ucast x"
  unfolding v4mapped_def by (simp only: ffff_mask)

lemma v4mapped_is_mapped: "IN6_IS_ADDR_V4MAPPED (v4mapped x)"
  unfolding IN6_IS_ADDR_V4MAPPED_def v4mapped_alt ffff_mask
  by (rule bit_word_eqI) (auto simp add: bit_simps dest: bit_imp_le_length)

lemma v4_of_v4mapped: "v4_of_mapped (v4mapped x) = x"
  unfolding v4_of_mapped_def v4mapped_alt
  by (rule bit_word_eqI) (auto simp add: bit_simps)

lemma sockaddr_equal_in_in6:
  "network_sockaddr_equal True (Sockaddr_in p x) (Sockaddr_in6 q w) =
     (IN6_IS_ADDR_V4MAPPED w \<and> v4_of_mapped w = x)"
  by (simp add: network_sockaddr_equal_def)

lemma sockaddr_equal_in6_in:
  "network_sockaddr_equal True (Sockaddr_in6 q w) (Sockaddr_in p x) =
     (IN6_IS_ADDR_V4MAPPED w \<and> v4_of_mapped w = x)"
  by (simp add: network_sockaddr_equal_def)

text \<open>
  C5.  In the build with IPv6, an IPv4 socket address and the IPv4-mapped IPv6 socket
  address that embeds the same IPv4 address are equal, in either order and whatever
  the ports; an IPv6 socket address that is not IPv4-mapped equals no IPv4 socket
  address, in either order.
\<close>

theorem network_sockaddr_equal_mapped:
  "network_sockaddr_equal True (Sockaddr_in p x) (Sockaddr_in6 q (v4mapped x)) \<and>
   network_sockaddr_equal True (Sockaddr_in6 q (v4mapped x)) (Sockaddr_in p x) \<and>
   (\<not> IN6_IS_ADDR_V4MAPPED w \<longrightarrow>
      \<not> network_sockaddr_equal True (Sockaddr_in6 q w) (Sockaddr_in p y) \<and>
      \<not> network_sockaddr_equal True (Sockaddr_in p y) (Sockaddr_in6 q w))"
  by (simp add: sockaddr_equal_in_in6 sockaddr_equal_in6_in v4mapped_is_mapped v4_of_v4mapped)

text \<open>
  The examples of the specification: 203.0.113.5 is \<open>0xCB007105\<close>, \<open>::ffff:203.0.113.5\<close> is
  \<open>0xFFFFCB007105\<close>, and \<open>2001:db8::1\<close> is not IPv4-mapped.
\<close>

theorem network_sockaddr_equal_mapped_witness:
  "v4mapped 0xCB007105 = 0xFFFFCB007105 \<and>
   network_sockaddr_equal True (Sockaddr_in 80 0xCB007105) (Sockaddr_in6 80 0xFFFFCB007105) \<and>
   \<not> IN6_IS_ADDR_V4MAPPED 0x20010db8000000000000000000000001 \<and>
   \<not> network_sockaddr_equal True (Sockaddr_in 80 0xCB007105)
        (Sockaddr_in6 80 0x20010db8000000000000000000000001)"
proof -
  have m: "v4mapped 0xCB007105 = 0xFFFFCB007105"
    by (simp add: v4mapped_def)
  have n: "\<not> IN6_IS_ADDR_V4MAPPED 0x20010db8000000000000000000000001"
    by (simp add: IN6_IS_ADDR_V4MAPPED_def)
  from network_sockaddr_equal_mapped
         [of 80 "0xCB007105" 80 "0x20010db8000000000000000000000001" "0xCB007105"]
  show ?thesis using m n by simp
qed

text \<open>
  C10.  \<open>network_sockaddr_equal\<close> is commutative, for socket addresses of any
  families, in the build with IPv6 and in the build without.
\<close>

theorem network_sockaddr_equal_commutes:
  "network_sockaddr_equal have_inet6 a b = network_sockaddr_equal have_inet6 b a"
  by (cases a; cases b)
     (auto simp add: network_sockaddr_equal_def sockaddr_equal_v4_def IN6_ARE_ADDR_EQUAL_def)

theorem network_sockaddr_equal_commutes_witness:
  "network_sockaddr_equal True (Sockaddr_in 80 0xCB007105) (Sockaddr_in6 80 0xFFFFCB007105) =
   network_sockaddr_equal True (Sockaddr_in6 80 0xFFFFCB007105) (Sockaddr_in 80 0xCB007105) \<and>
   network_sockaddr_equal True (Sockaddr_in6 80 0xFFFFCB007105) (Sockaddr_in 80 0xCB007105)"
  using network_sockaddr_equal_commutes
          [of True "Sockaddr_in 80 0xCB007105" "Sockaddr_in6 80 0xFFFFCB007105"]
  by (simp add: sockaddr_equal_in6_in IN6_IS_ADDR_V4MAPPED_def v4_of_mapped_def)


section \<open>Descriptors\<close>

lemma hd_filter_sat:
  assumes "\<exists>x\<in>set xs. P x"
  shows "P (hd (filter P xs)) \<and> hd (filter P xs) \<in> set xs"
proof -
  from assms have "filter P xs \<noteq> []"
    by (simp add: filter_empty_conv)
  then have "hd (filter P xs) \<in> set (filter P xs)"
    by (rule hd_in_set)
  then show ?thesis by simp
qed

lemma lowest_free_candidates:
  "\<exists>n\<in>set (map int [0..<Suc (length fds)]). n \<notin> set fds"
proof (rule ccontr)
  assume "\<not> (\<exists>n\<in>set (map int [0..<Suc (length fds)]). n \<notin> set fds)"
  then have sub: "int ` {0..<Suc (length fds)} \<subseteq> set fds"
    by (auto simp del: upt_Suc)
  have "card (int ` {0..<Suc (length fds)}) = Suc (length fds)"
    by (simp add: card_image)
  moreover have "card (int ` {0..<Suc (length fds)}) \<le> card (set fds)"
    using sub by (intro card_mono) auto
  moreover have "card (set fds) \<le> length fds"
    by (rule card_length)
  ultimately show False by simp
qed

lemma lowest_free_fresh: "lowest_free fds \<notin> set fds"
  using hd_filter_sat [OF lowest_free_candidates, of fds]
  unfolding lowest_free_def by blast

lemma lowest_free_nonneg: "0 \<le> lowest_free fds"
proof -
  have "lowest_free fds \<in> set (map int [0..<Suc (length fds)])"
    using hd_filter_sat [OF lowest_free_candidates, of fds]
    unfolding lowest_free_def by blast
  then show ?thesis by (auto simp del: upt_Suc)
qed

lemma sys_socket_cases:
  "sys_socket W d t p s = (fd, s') \<Longrightarrow>
     (fd = -1 \<and> open_fds s' = open_fds s) \<or>
     (0 \<le> fd \<and> fd \<notin> set (open_fds s) \<and> open_fds s' = fd # open_fds s)"
  using lowest_free_fresh [of "open_fds s"] lowest_free_nonneg [of "open_fds s"]
  by (auto simp add: sys_socket_def record_call_def Let_def split: option.splits)

lemma open_fds_sys_close:
  "open_fds (snd (sys_close W fd s)) = removeAll fd (open_fds s)"
  by (auto simp add: sys_close_def record_call_def split: option.splits)

lemma open_fds_sys_plain: "sys_plain W ev s = (r, s') \<Longrightarrow> open_fds s' = open_fds s"
  by (auto simp add: sys_plain_def record_call_def split: option.splits)

lemma open_fds_sys_bind: "sys_bind W fd a s = (r, s') \<Longrightarrow> open_fds s' = open_fds s"
  unfolding sys_bind_def by (rule open_fds_sys_plain)

lemma open_fds_sys_connect: "sys_connect W fd a s = (r, s') \<Longrightarrow> open_fds s' = open_fds s"
  unfolding sys_connect_def by (rule open_fds_sys_plain)

lemma open_fds_warn [simp]: "open_fds (warn m s) = open_fds s"
  by (simp add: warn_def)

lemma open_fds_syswarn [simp]: "open_fds (syswarn m s) = open_fds s"
  by (simp add: syswarn_def)

lemma open_fds_set_reuseaddr [simp]: "open_fds (network_set_reuseaddr W fd s) = open_fds s"
  by (auto simp add: network_set_reuseaddr_def sys_setsockopt_def
        split: prod.splits dest: open_fds_sys_plain)

section \<open>Binding a socket\<close>

text \<open>
  \<open>network_bind_ipv6\<close> closes the descriptor it created on each of its failure paths:
  when it returns -1 the open descriptors are those open before the call.
\<close>

lemma network_bind_ipv6_closes:
  assumes "network_bind_ipv6 have_inet6 L W address prt s = (-1, s')"
  shows "open_fds s' = open_fds s"
proof (cases have_inet6)
  case False
  with assms show ?thesis by (auto simp add: network_bind_ipv6_def)
next
  case True
  obtain fd s1 where sock: "sys_socket W AF_INET6 SOCK_STREAM IPPROTO_IP s = (fd, s1)"
    by (cases "sys_socket W AF_INET6 SOCK_STREAM IPPROTO_IP s")
  from sys_socket_cases [OF sock] show ?thesis
  proof
    assume "fd = -1 \<and> open_fds s1 = open_fds s"
    with assms True sock show ?thesis
      by (auto simp add: network_bind_ipv6_def split: if_splits)
  next
    assume ok: "0 \<le> fd \<and> fd \<notin> set (open_fds s) \<and> open_fds s1 = fd # open_fds s"
    with assms True sock show ?thesis
      by (auto simp add: network_bind_ipv6_def Let_def open_fds_sys_close
            split: option.splits if_splits prod.splits dest!: open_fds_sys_bind)
  qed
qed

text \<open>
  C1.  \<open>network_bind_ipv4\<close> does not: when the socket was created and the call then
  returns -1 (the address text is refused, or \<^verbatim>\<open>bind\<close> fails), the descriptor it
  created is still open on return.
\<close>

theorem network_bind_ipv4_leaks:
  assumes "network_bind_ipv4 L W address prt s = (-1, s')"
    and "sys_fail W (clock s) = None"
  shows "open_fds s' = lowest_free (open_fds s) # open_fds s"
  using assms lowest_free_nonneg [of "open_fds s"]
  by (auto simp add: network_bind_ipv4_def sys_socket_def record_call_def Let_def
        split: option.splits if_splits prod.splits dest!: open_fds_sys_bind)

lemma lowest_free_std: "lowest_free [0, 1, 2] = 3"
  by (simp add: lowest_free_def)

lemma sample_inet_aton_bogus: "sample_inet_aton ''bogus'' = None"
  by (simp add: sample_inet_aton_def quad_part_def isdigit_def decimal_def)

lemma sample_inet_aton_any: "sample_inet_aton ''0.0.0.0'' = Some 0"
  by (simp add: sample_inet_aton_def quad_part_def isdigit_def decimal_def)

lemma bind_ipv4_bogus:
  "network_bind_ipv4 sample_libc calm_world ''bogus'' 4373 initial_state =
     (-1, \<lparr>open_fds = [3, 0, 1, 2], errno = 0, clock = 2,
           events = [Ev_socket AF_INET 1 0 [0, 1, 2] 3, Ev_setsockopt 3 0,
                     Ev_warn ''invalid IPv4 address'']\<rparr>)"
  by (simp add: network_bind_ipv4_def sys_socket_def calm_world_def initial_state_def
        lowest_free_std record_call_def network_set_reuseaddr_def sys_setsockopt_def
        sys_plain_def sample_libc_def sample_inet_aton_bogus warn_def SOCK_STREAM_def
        IPPROTO_IP_def)

lemma bind_ipv4_in_use:
  "network_bind_ipv4 sample_libc (failing_world 2 98) ''any'' 4373 initial_state =
     (-1, \<lparr>open_fds = [3, 0, 1, 2], errno = 98, clock = 3,
           events = [Ev_socket AF_INET 1 0 [0, 1, 2] 3, Ev_setsockopt 3 0,
                     Ev_bind 3 (Sockaddr_in 4373 0) (-1), Ev_warn ''cannot bind socket'']\<rparr>)"
  by (simp add: network_bind_ipv4_def sys_socket_def calm_world_def initial_state_def
        lowest_free_std failing_world_def record_call_def network_set_reuseaddr_def
        sys_setsockopt_def sys_plain_def sample_libc_def sample_inet_aton_any syswarn_def
        sys_bind_def htons_def SOCK_STREAM_def IPPROTO_IP_def)

text \<open>
  With the standard descriptors open, \<open>network_bind_ipv4("bogus", 4373)\<close> returns -1
  and leaves descriptor 3 open.
\<close>

theorem network_bind_ipv4_leaks_witness:
  "fst (network_bind_ipv4 sample_libc calm_world ''bogus'' 4373 initial_state) = -1 \<and>
   open_fds (snd (network_bind_ipv4 sample_libc calm_world ''bogus'' 4373 initial_state)) =
     [3, 0, 1, 2] \<and>
   open_fds initial_state = [0, 1, 2]"
proof -
  have "sys_fail calm_world (clock initial_state) = None"
    by (simp add: calm_world_def)
  from network_bind_ipv4_leaks [OF bind_ipv4_bogus this]
  show ?thesis
    unfolding bind_ipv4_bogus by (simp add: initial_state_def)
qed


section \<open>Parsing a mask\<close>

lemma isdigit_not_space: "isdigit c \<Longrightarrow> \<not> isspace c"
  by (auto simp add: isdigit_def isspace_def)

lemma isdigit_not_sign: "isdigit c \<Longrightarrow> c \<noteq> CHR ''-'' \<and> c \<noteq> CHR ''+''"
  by (auto simp add: isdigit_def)

lemma strtoul_decimal:
  assumes "is_decimal m"
  shows "strtoul m = (min (decimal m) ULONG_MAX, [])"
proof -
  from assms obtain c cs where m: "m = c # cs" and c: "isdigit c" and all: "list_all isdigit m"
    by (cases m) (auto simp add: is_decimal_def)
  have s1: "dropWhile isspace m = m"
    using m c isdigit_not_space by simp
  have tw: "takeWhile isdigit m = m" and dw: "dropWhile isdigit m = []"
    using all by (simp_all add: list_all_iff)
  have hd: "hd m \<noteq> CHR ''-''" "hd m \<noteq> CHR ''+''"
    using m c isdigit_not_sign by auto
  show ?thesis
    unfolding strtoul_def s1 Let_def using hd tw dw m
    by (auto simp add: min_def)
qed

lemma strtoul_empty: "strtoul [] = (0, [])"
  by (simp add: strtoul_def)

lemma cidr_bits_zero: "cidr_bits 0 0 0 = 0"
  by (simp add: cidr_bits.simps [of 0 0 0])

lemma match6_loop_zero: "match6_loop a6 b6 0 0"
  by (simp add: match6_loop.simps [of a6 b6 0 0])

section \<open>The IPv4 bitmask of a prefix length\<close>

lemma bit_scast_shift:
  assumes "i \<le> 31" "k < 32"
  shows "bit (scast (push_bit (31 - i) (1 :: 32 word)) :: 64 word) k = (k = 31 - i)"
  using assms by (auto simp add: bit_simps min_def)

lemma bit_scast_exp:
  assumes "i \<le> 31" "k < 32"
  shows "bit (scast ((2 :: 32 word) ^ (31 - i)) :: 64 word) k = (k = 31 - i)"
  using bit_scast_shift [OF assms] by simp

lemma cidr_bits_bit:
  "n \<le> 32 \<Longrightarrow> k < 32 \<Longrightarrow>
     bit (cidr_bits n i bits) k = (bit bits k \<or> (i < n \<and> 32 - n \<le> k \<and> k \<le> 31 - i))"
proof (induction n i bits rule: cidr_bits.induct)
  case (1 cidr i bits)
  show ?case
  proof (cases "i < cidr")
    case False
    then show ?thesis by (simp add: cidr_bits.simps [of cidr i bits])
  next
    case True
    with 1 have i31: "i \<le> 31" by simp
    have "bit (cidr_bits cidr i bits) k =
            bit (cidr_bits cidr (Suc i) (bits OR scast (push_bit (31 - i) (1 :: 32 word)))) k"
      using True by (simp add: cidr_bits.simps [of cidr i bits])
    also have "\<dots> = (bit (bits OR scast (push_bit (31 - i) (1 :: 32 word))) k \<or>
                      (Suc i < cidr \<and> 32 - cidr \<le> k \<and> k \<le> 31 - Suc i))"
      using 1 True by simp
    also have "\<dots> = (bit bits k \<or> (i < cidr \<and> 32 - cidr \<le> k \<and> k \<le> 31 - i))"
      using True i31 1(2,3) by (auto simp add: bit_or_iff bit_scast_exp)
    finally show ?thesis .
  qed
qed

lemma cidr_bits_mask:
  assumes "n \<le> 32"
  shows "(ucast (cidr_bits n 0 0) :: 32 word) = NOT (mask (32 - n))"
proof (rule bit_word_eqI)
  fix k assume "k < LENGTH(32)"
  then have k: "k < 32" by simp
  show "bit (ucast (cidr_bits n 0 0) :: 32 word) k = bit (NOT (mask (32 - n)) :: 32 word) k"
    using k assms by (auto simp add: bit_simps cidr_bits_bit)
qed


lemma cidr_bits_spec: "n \<le> 32 \<Longrightarrow> htonl (ucast (cidr_bits n 0 0)) = cidr_mask32 n"
  by (simp add: htonl_def cidr_mask32_def cidr_bits_mask)

section \<open>The IPv6 prefix comparison\<close>

lemma bit_s6_addr: "bit (s6_addr w i) j = (j < 8 \<and> bit w (8 * (15 - i) + j))"
  by (auto simp add: s6_addr_def bit_simps dest: bit_imp_le_length)

lemma s6_addr_eq_iff:
  "(s6_addr a i = s6_addr b i) =
     (\<forall>j. 8 * (15 - i) \<le> j \<and> j < 8 * (15 - i) + 8 \<longrightarrow> bit a j = bit b j)"
proof
  assume eq: "s6_addr a i = s6_addr b i"
  show "\<forall>j. 8 * (15 - i) \<le> j \<and> j < 8 * (15 - i) + 8 \<longrightarrow> bit a j = bit b j"
  proof (intro allI impI)
    fix j assume j: "8 * (15 - i) \<le> j \<and> j < 8 * (15 - i) + 8"
    then have "j - 8 * (15 - i) < 8" by arith
    moreover have "bit (s6_addr a i) (j - 8 * (15 - i)) = bit (s6_addr b i) (j - 8 * (15 - i))"
      using eq by simp
    ultimately show "bit a j = bit b j"
      using j by (simp add: bit_s6_addr)
  qed
next
  assume r: "\<forall>j. 8 * (15 - i) \<le> j \<and> j < 8 * (15 - i) + 8 \<longrightarrow> bit a j = bit b j"
  show "s6_addr a i = s6_addr b i"
    by (rule bit_word_eqI) (use r in \<open>simp add: bit_s6_addr\<close>)
qed

lemma byte_mask_bit:
  "r \<le> 8 \<Longrightarrow> j < 8 \<Longrightarrow>
     bit (byte_mask r c m) j = (bit m j \<or> (c < r \<and> 8 - r \<le> j \<and> j \<le> 7 - c))"
proof (induction r c m rule: byte_mask.induct)
  case (1 n bits addr_mask)
  show ?case
  proof (cases "bits < n")
    case False
    then show ?thesis by (simp add: byte_mask.simps [of n bits addr_mask])
  next
    case True
    have sh: "bit (push_bit (7 - bits) (1 :: 8 word)) j = (j = 7 - bits)"
      using 1(3) by (auto simp add: bit_simps)
    have "bit (byte_mask n bits addr_mask) j =
            bit (byte_mask n (Suc bits) (addr_mask OR push_bit (7 - bits) 1)) j"
      using True by (simp add: byte_mask.simps [of n bits addr_mask])
    also have "\<dots> = (bit (addr_mask OR push_bit (7 - bits) 1) j \<or>
                      (Suc bits < n \<and> 8 - n \<le> j \<and> j \<le> 7 - Suc bits))"
      using 1 True by simp
    also have "\<dots> = (bit addr_mask j \<or> (bits < n \<and> 8 - n \<le> j \<and> j \<le> 7 - bits))"
      using True 1(2,3) unfolding bit_or_iff sh by auto
    finally show ?thesis .
  qed
qed

lemma s6_addr_masked_eq_iff:
  assumes "r \<le> 8"
  shows "((s6_addr a i AND byte_mask r 0 0) = (s6_addr b i AND byte_mask r 0 0)) =
     (\<forall>j. 8 * (15 - i) + 8 - r \<le> j \<and> j < 8 * (15 - i) + 8 \<longrightarrow> bit a j = bit b j)"
proof
  assume eq: "(s6_addr a i AND byte_mask r 0 0) = (s6_addr b i AND byte_mask r 0 0)"
  show "\<forall>j. 8 * (15 - i) + 8 - r \<le> j \<and> j < 8 * (15 - i) + 8 \<longrightarrow> bit a j = bit b j"
  proof (intro allI impI)
    fix j assume j: "8 * (15 - i) + 8 - r \<le> j \<and> j < 8 * (15 - i) + 8"
    let ?d = "j - 8 * (15 - i)"
    have d: "?d < 8" "8 - r \<le> ?d" "0 < r" using j assms by arith+
    have "bit (s6_addr a i AND byte_mask r 0 0) ?d = bit (s6_addr b i AND byte_mask r 0 0) ?d"
      using eq by simp
    then have "bit (s6_addr a i) ?d = bit (s6_addr b i) ?d"
      using d assms by (simp add: bit_and_iff byte_mask_bit)
    moreover have "8 * (15 - i) + ?d = j"
      using j assms by arith
    ultimately show "bit a j = bit b j"
      using d by (simp add: bit_s6_addr)
  qed
next
  assume r: "\<forall>j. 8 * (15 - i) + 8 - r \<le> j \<and> j < 8 * (15 - i) + 8 \<longrightarrow> bit a j = bit b j"
  show "(s6_addr a i AND byte_mask r 0 0) = (s6_addr b i AND byte_mask r 0 0)"
  proof (rule bit_word_eqI)
    fix n assume "n < LENGTH(8)"
    then have n: "n < 8" by simp
    show "bit (s6_addr a i AND byte_mask r 0 0) n = bit (s6_addr b i AND byte_mask r 0 0) n"
      using n assms r by (auto simp add: bit_and_iff byte_mask_bit bit_s6_addr)
  qed
qed

lemma split_range:
  fixes lo mid hi :: nat
  assumes "lo \<le> mid" "mid \<le> hi"
  shows "((\<forall>j. mid \<le> j \<and> j < hi \<longrightarrow> P j) \<and> (\<forall>j. lo \<le> j \<and> j < mid \<longrightarrow> P j)) =
           (\<forall>j. lo \<le> j \<and> j < hi \<longrightarrow> P j)"
proof
  assume h: "(\<forall>j. mid \<le> j \<and> j < hi \<longrightarrow> P j) \<and> (\<forall>j. lo \<le> j \<and> j < mid \<longrightarrow> P j)"
  show "\<forall>j. lo \<le> j \<and> j < hi \<longrightarrow> P j"
  proof (intro allI impI)
    fix j assume j: "lo \<le> j \<and> j < hi"
    show "P j"
    proof (cases "j < mid")
      case True
      with h j show ?thesis by simp
    next
      case False
      with h j show ?thesis by simp
    qed
  qed
next
  assume h: "\<forall>j. lo \<le> j \<and> j < hi \<longrightarrow> P j"
  show "(\<forall>j. mid \<le> j \<and> j < hi \<longrightarrow> P j) \<and> (\<forall>j. lo \<le> j \<and> j < mid \<longrightarrow> P j)"
    using h assms by auto
qed

lemma s6_addr_eq_range:
  assumes "lo = 8 * (15 - i)" "hi = lo + 8"
  shows "(s6_addr a i = s6_addr b i) = (\<forall>j. lo \<le> j \<and> j < hi \<longrightarrow> bit a j = bit b j)"
  unfolding assms by (rule s6_addr_eq_iff)

lemma s6_addr_masked_eq_range:
  assumes "r \<le> 8" "lo = 8 * (15 - i) + 8 - r" "hi = 8 * (15 - i) + 8"
  shows "((s6_addr a i AND byte_mask r 0 0) = (s6_addr b i AND byte_mask r 0 0)) =
     (\<forall>j. lo \<le> j \<and> j < hi \<longrightarrow> bit a j = bit b j)"
  unfolding assms(2,3) by (rule s6_addr_masked_eq_iff [OF assms(1)])

lemma match6_loop_bits:
  "n \<le> 128 \<Longrightarrow>
     match6_loop a b n i = (\<forall>j. 128 - n \<le> j \<and> j < 128 - 8 * i \<longrightarrow> bit a j = bit b j)"
proof (induction a b n i rule: match6_loop.induct)
  case (1 a6 b6 cidr i)
  show ?case
  proof (cases "i * 8 < cidr")
    case False
    then have "\<And>j. \<not> (128 - cidr \<le> j \<and> j < 128 - 8 * i)" by arith
    moreover have "match6_loop a6 b6 cidr i"
      using False by (simp add: match6_loop.simps [of a6 b6 cidr i])
    ultimately show ?thesis by blast
  next
    case lt: True
    with 1(3) have i15: "i \<le> 15" by arith
    show ?thesis
    proof (cases "(i + 1) * 8 \<le> cidr")
      case full: True
      have byte: "(s6_addr a6 i = s6_addr b6 i) =
                    (\<forall>j. 128 - 8 * Suc i \<le> j \<and> j < 128 - 8 * i \<longrightarrow> bit a6 j = bit b6 j)"
        using i15 by (intro s6_addr_eq_range) arith+
      have "match6_loop a6 b6 cidr i =
              (s6_addr a6 i = s6_addr b6 i \<and> match6_loop a6 b6 cidr (Suc i))"
        using lt full by (auto simp add: match6_loop.simps [of a6 b6 cidr i])
      also have "\<dots> = ((\<forall>j. 128 - 8 * Suc i \<le> j \<and> j < 128 - 8 * i \<longrightarrow> bit a6 j = bit b6 j) \<and>
                       (\<forall>j. 128 - cidr \<le> j \<and> j < 128 - 8 * Suc i \<longrightarrow> bit a6 j = bit b6 j))"
      proof (cases "s6_addr a6 i = s6_addr b6 i")
        case True
        have rest: "match6_loop a6 b6 cidr (Suc i) =
                      (\<forall>j. 128 - cidr \<le> j \<and> j < 128 - 8 * Suc i \<longrightarrow> bit a6 j = bit b6 j)"
          using lt full True 1(3) by (intro 1(1)) simp_all
        show ?thesis by (simp only: byte rest)
      next
        case False
        then show ?thesis unfolding byte [symmetric] by simp
      qed
      also have "\<dots> = (\<forall>j. 128 - cidr \<le> j \<and> j < 128 - 8 * i \<longrightarrow> bit a6 j = bit b6 j)"
      proof -
        have e2: "128 - cidr \<le> 128 - 8 * Suc i" using full 1(3) by arith
        have e3: "128 - 8 * Suc i \<le> 128 - 8 * i" by arith
        show ?thesis by (rule split_range [OF e2 e3])
      qed
      finally show ?thesis .
    next
      case part: False
      define r where "r = cidr mod 8"
      have "cidr div 8 = i"
        using lt part by (intro div_nat_eqI) simp_all
      then have cidr: "cidr = 8 * i + r"
        unfolding r_def using mult_div_mod_eq [of 8 cidr] by simp
      have r8: "r < 8" "0 < r"
        using lt cidr unfolding r_def by simp_all
      have nxt: "match6_loop a6 b6 cidr (Suc i)"
        using part by (simp add: match6_loop.simps [of a6 b6 cidr "Suc i"])
      have "match6_loop a6 b6 cidr i =
              ((s6_addr a6 i AND byte_mask (cidr mod 8) 0 0) =
               (s6_addr b6 i AND byte_mask (cidr mod 8) 0 0))"
        using lt part nxt
        by (simp add: match6_loop.simps [of a6 b6 cidr i] Let_def)
      also have "\<dots> = (\<forall>j. 128 - cidr \<le> j \<and> j < 128 - 8 * i \<longrightarrow> bit a6 j = bit b6 j)"
        unfolding r_def [symmetric] using i15 cidr r8
        by (intro s6_addr_masked_eq_range) arith+
      finally show ?thesis .
    qed
  qed
qed

lemma drop_bit_eq_iff_bits:
  fixes a b :: "128 word"
  assumes "n \<le> 128"
  shows "(drop_bit (128 - n) a = drop_bit (128 - n) b) =
           (\<forall>j. 128 - n \<le> j \<and> j < 128 \<longrightarrow> bit a j = bit b j)"
proof
  assume eq: "drop_bit (128 - n) a = drop_bit (128 - n) b"
  show "\<forall>j. 128 - n \<le> j \<and> j < 128 \<longrightarrow> bit a j = bit b j"
  proof (intro allI impI)
    fix j assume j: "128 - n \<le> j \<and> j < 128"
    have "bit (drop_bit (128 - n) a) (j - (128 - n)) = bit (drop_bit (128 - n) b) (j - (128 - n))"
      using eq by simp
    then show "bit a j = bit b j"
      using j by (simp add: bit_drop_bit_eq)
  qed
next
  assume r: "\<forall>j. 128 - n \<le> j \<and> j < 128 \<longrightarrow> bit a j = bit b j"
  show "drop_bit (128 - n) a = drop_bit (128 - n) b"
  proof (rule bit_word_eqI)
    fix k assume "k < LENGTH(128)"
    show "bit (drop_bit (128 - n) a) k = bit (drop_bit (128 - n) b) k"
    proof (cases "128 - n + k < 128")
      case True
      then show ?thesis using r by (simp add: bit_drop_bit_eq)
    next
      case False
      then have "\<not> bit a (128 - n + k)" "\<not> bit b (128 - n + k)"
        by (auto dest: bit_imp_le_length)
      then show ?thesis by (simp add: bit_drop_bit_eq)
    qed
  qed
qed

lemma match6_loop_prefix:
  "n \<le> 128 \<Longrightarrow> match6_loop a b n 0 = (drop_bit (128 - n) a = drop_bit (128 - n) b)"
  by (simp add: match6_loop_bits drop_bit_eq_iff_bits)



section \<open>Matching addresses under a mask\<close>

text \<open>What \<open>sample_libc\<close> makes of the addresses of the examples.\<close>

lemma sample_10_0_0_1: "sample_inet_aton ''10.0.0.1'' = Some 0x0A000001"
  by (simp add: sample_inet_aton_def quad_part_def isdigit_def decimal_def)
lemma sample_10_0_0_2: "sample_inet_aton ''10.0.0.2'' = Some 0x0A000002"
  by (simp add: sample_inet_aton_def quad_part_def isdigit_def decimal_def)
lemma sample_10_1_0_2: "sample_inet_aton ''10.1.0.2'' = Some 0x0A010002"
  by (simp add: sample_inet_aton_def quad_part_def isdigit_def decimal_def)
lemma sample_192_168_1_1: "sample_inet_aton ''192.168.1.1'' = Some 0xC0A80101"
  by (simp add: sample_inet_aton_def quad_part_def isdigit_def decimal_def)
lemma replicate_5: "replicate 5 x = [x, x, x, x, x]"
  by (simp add: eval_nat_numeral)

lemma not_mask_8: "NOT (mask 8) = (0xFFFFFF00 :: 32 word)"
  by (simp add: mask_eq_exp_minus_1 not_eq_complement)

lemma sample_db8_1: "sample_inet_pton6 ''2001:db8::1'' = Some 0x20010db8000000000000000000000001"
  by (simp add: sample_inet_pton6_def hex_groups_def hex_group_def hex_digit_def in6_of_groups_def
        replicate_5)
lemma sample_db9_1: "sample_inet_pton6 ''2001:db9::1'' = Some 0x20010db9000000000000000000000001"
  by (simp add: sample_inet_pton6_def hex_groups_def hex_group_def hex_digit_def in6_of_groups_def
        replicate_5)
lemma sample_aton_db8_1: "sample_inet_aton ''2001:db8::1'' = None"
  by (simp add: sample_inet_aton_def quad_part_def isdigit_def decimal_def)
lemma sample_aton_db9_1: "sample_inet_aton ''2001:db9::1'' = None"
  by (simp add: sample_inet_aton_def quad_part_def isdigit_def decimal_def)

lemma sample_libc_simps [simp]:
  "inet_aton sample_libc = sample_inet_aton" "inet_pton6 sample_libc = sample_inet_pton6"
  by (simp_all add: sample_libc_def)


text \<open>
  C3.  When \<open>a\<close> and \<open>b\<close> both parse as IPv4 literals and the mask is absent, a string of
  decimal digits, or a text with a dot, \<open>network_addr_match\<close> is true exactly when the
  specification's bitmask exists and \<open>a\<close> and \<open>b\<close> are equal under it: all 32 bits for
  no mask, the left-justified mask of a prefix length 0 to 32, the dotted quad that
  \<open>inet_aton\<close> reads.  An IPv4 literal matches itself when there is no mask.
\<close>

theorem network_addr_match_ipv4:
  assumes "inet_aton L a = Some a4" and "inet_aton L b = Some b4"
    and "msk = None \<or> (\<exists>m. msk = Some m \<and> (CHR ''.'' \<in> set m \<or> is_decimal m))"
  shows "network_addr_match have_inet6 L a b msk =
           (case ipv4_mask_spec L msk of
              None \<Rightarrow> False
            | Some bitmask \<Rightarrow> (a4 AND bitmask) = (b4 AND bitmask)) \<and>
         network_addr_match have_inet6 L a a None"
proof
  show "network_addr_match have_inet6 L a a None"
    using assms(1) by (simp add: network_addr_match_def)
  from assms(3) consider "msk = None"
    | m where "msk = Some m" "CHR ''.'' \<in> set m"
    | m where "msk = Some m" "CHR ''.'' \<notin> set m" "is_decimal m"
    by blast
  then show "network_addr_match have_inet6 L a b msk =
           (case ipv4_mask_spec L msk of
              None \<Rightarrow> False
            | Some bitmask \<Rightarrow> (a4 AND bitmask) = (b4 AND bitmask))"
  proof cases
    case 1
    with assms(1,2) show ?thesis
      by (simp add: network_addr_match_def ipv4_mask_spec_def htonl_def)
  next
    case 2
    with assms(1,2) show ?thesis
      by (simp add: network_addr_match_def ipv4_mask_spec_def split: option.splits)
  next
    case 3
    have st: "strtoul m = (min (decimal m) ULONG_MAX, [])"
      using 3(3) by (rule strtoul_decimal)
    show ?thesis
    proof (cases "decimal m \<le> 32")
      case True
      then have mn: "min (decimal m) ULONG_MAX = decimal m"
        by (simp add: ULONG_MAX_def)
      show ?thesis
        using assms(1,2) 3 True
        by (simp add: network_addr_match_def ipv4_mask_spec_def st mn cidr_bits_spec Let_def)
    next
      case False
      then have "min (decimal m) ULONG_MAX > 32"
        by (simp add: ULONG_MAX_def)
      then show ?thesis
        using assms(1,2) 3 False
        by (simp add: network_addr_match_def ipv4_mask_spec_def st)
    qed
  qed
qed

lemma is_decimal_24: "is_decimal ''24''"
  by (simp add: is_decimal_def isdigit_def)

lemma decimal_24: "decimal ''24'' = 24"
  by (simp add: decimal_def)


text \<open>
  The examples of the specification: 10.0.0.1 and 10.0.0.2 match under the mask 24,
  10.0.0.1 and 10.1.0.2 do not, and 10.0.0.1 matches itself.
\<close>

theorem network_addr_match_ipv4_witness:
  "network_addr_match True sample_libc ''10.0.0.1'' ''10.0.0.2'' (Some ''24'') \<and>
   \<not> network_addr_match True sample_libc ''10.0.0.1'' ''10.1.0.2'' (Some ''24'') \<and>
   network_addr_match True sample_libc ''10.0.0.1'' ''10.0.0.1'' None"
proof -
  have f: "Some ''24'' = None \<or> (\<exists>m. Some ''24'' = Some m \<and> (CHR ''.'' \<in> set m \<or> is_decimal m))"
    using is_decimal_24 by simp
  have a: "inet_aton sample_libc ''10.0.0.1'' = Some 0x0A000001"
    and b: "inet_aton sample_libc ''10.0.0.2'' = Some 0x0A000002"
    and c: "inet_aton sample_libc ''10.1.0.2'' = Some 0x0A010002"
    by (simp_all add: sample_10_0_0_1 sample_10_0_0_2 sample_10_1_0_2)
  have m: "ipv4_mask_spec sample_libc (Some ''24'') = Some 0xFFFFFF00"
    by (simp add: ipv4_mask_spec_def is_decimal_24 decimal_24 cidr_mask32_def not_mask_8)
  from network_addr_match_ipv4 [OF a b f, of True] network_addr_match_ipv4 [OF a c f, of True]
  show ?thesis by (simp add: m)
qed


text \<open>
  C2.  The empty mask is neither a CIDR prefix nor a dotted quad, and
  \<open>network_addr_match\<close> does not return false for it: \<^verbatim>\<open>strtoul\<close> converts nothing,
  yields 0 and leaves \<open>end\<close> at the terminator, so that the mask is taken to be the
  prefix length 0 and any two IPv4 literals match.
\<close>

theorem network_addr_match_empty_mask:
  assumes "inet_aton L a = Some a4" and "inet_aton L b = Some b4"
  shows "network_addr_match have_inet6 L a b (Some '''')"
  using assms
  by (simp add: network_addr_match_def strtoul_empty cidr_bits_zero htonl_def)


text \<open>
  10.0.0.1 and 192.168.1.1 match under the empty mask, which is not a decimal number
  and not a dotted quad; they do not match without a mask.
\<close>

theorem network_addr_match_empty_mask_witness:
  "network_addr_match True sample_libc ''10.0.0.1'' ''192.168.1.1'' (Some '''') \<and>
   \<not> is_decimal '''' \<and> sample_inet_aton '''' = None \<and>
   \<not> network_addr_match True sample_libc ''10.0.0.1'' ''192.168.1.1'' None"
proof -
  have a: "inet_aton sample_libc ''10.0.0.1'' = Some 0x0A000001"
    and b: "inet_aton sample_libc ''192.168.1.1'' = Some 0xC0A80101"
    by (simp_all add: sample_10_0_0_1 sample_192_168_1_1)
  have n: "\<not> network_addr_match True sample_libc ''10.0.0.1'' ''192.168.1.1'' None"
    using a b by (simp add: network_addr_match_def htonl_def)
  have e: "sample_inet_aton '''' = None"
    by (simp add: sample_inet_aton_def quad_part_def)
  from network_addr_match_empty_mask [OF a b, of True] n e
  show ?thesis by (simp add: is_decimal_def)
qed


text \<open>
  For IPv6 literals and a mask that is absent or a string of decimal digits,
  \<open>network_addr_match\<close> is true exactly when both parse, the prefix length is at most
  128 and the first bits of the two addresses agree, that many of them.
\<close>

lemma network_addr_match_ipv6_prefix:
  assumes "inet_aton L a = None \<or> inet_aton L b = None"
    and "msk = None \<or> (\<exists>m. msk = Some m \<and> is_decimal m)"
  shows "network_addr_match True L a b msk =
           (\<exists>a6 b6 n. inet_pton6 L a = Some a6 \<and> inet_pton6 L b = Some b6 \<and>
                       ipv6_prefix_spec msk = Some n \<and> same_prefix n a6 b6)"
proof -
  have v6: "\<And>k. network_addr_match True L a b k = addr_match_ipv6 L a b k"
    using assms(1) by (auto simp add: network_addr_match_def split: option.splits)
  show ?thesis
  proof (cases "inet_pton6 L a")
    case None
    then show ?thesis by (simp add: v6 addr_match_ipv6_def)
  next
    case a6: (Some a6)
    show ?thesis
    proof (cases "inet_pton6 L b")
      case None
      then show ?thesis by (simp add: v6 addr_match_ipv6_def a6)
    next
      case b6: (Some b6)
      from assms(2) consider "msk = None" | m where "msk = Some m" "is_decimal m"
        by blast
      then show ?thesis
      proof cases
        case 1
        then show ?thesis
          by (simp add: v6 addr_match_ipv6_def a6 b6 ipv6_prefix_spec_def same_prefix_def
                match6_loop_prefix)
      next
        case 2
        have st: "strtoul m = (min (decimal m) ULONG_MAX, [])"
          using 2(2) by (rule strtoul_decimal)
        show ?thesis
        proof (cases "decimal m \<le> 128")
          case True
          then have mn: "min (decimal m) ULONG_MAX = decimal m"
            by (simp add: ULONG_MAX_def)
          show ?thesis
            using 2 True
            by (simp add: v6 addr_match_ipv6_def a6 b6 ipv6_prefix_spec_def same_prefix_def
                  st mn match6_loop_prefix)
        next
          case False
          then have "min (decimal m) ULONG_MAX > 128"
            by (simp add: ULONG_MAX_def)
          then show ?thesis
            using 2 False
            by (simp add: v6 addr_match_ipv6_def a6 b6 ipv6_prefix_spec_def st)
        qed
      qed
    qed
  qed
qed

lemma same_prefix_bits:
  "n \<le> 128 \<Longrightarrow> same_prefix n x y = (\<forall>k<n. bit x (127 - k) = bit y (127 - k))"
proof -
  assume n: "n \<le> 128"
  have "(\<forall>j. 128 - n \<le> j \<and> j < 128 \<longrightarrow> bit x j = bit y j) =
          (\<forall>k<n. bit x (127 - k) = bit y (127 - k))"
  proof
    assume h: "\<forall>j. 128 - n \<le> j \<and> j < 128 \<longrightarrow> bit x j = bit y j"
    show "\<forall>k<n. bit x (127 - k) = bit y (127 - k)"
    proof (intro allI impI)
      fix k assume "k < n"
      with n have "128 - n \<le> 127 - k \<and> 127 - k < 128" by arith
      with h show "bit x (127 - k) = bit y (127 - k)" by blast
    qed
  next
    assume h: "\<forall>k<n. bit x (127 - k) = bit y (127 - k)"
    show "\<forall>j. 128 - n \<le> j \<and> j < 128 \<longrightarrow> bit x j = bit y j"
    proof (intro allI impI)
      fix j assume j: "128 - n \<le> j \<and> j < 128"
      with n have a: "127 - j < n" and b: "127 - (127 - j) = j" by arith+
      from h a have "bit x (127 - (127 - j)) = bit y (127 - (127 - j))" by blast
      then show "bit x j = bit y j" unfolding b .
    qed
  qed
  then show ?thesis
    using n by (simp add: same_prefix_def drop_bit_eq_iff_bits)
qed


text \<open>
  C4.  With the empty mask, which is not a decimal prefix, two IPv6 literals match
  whatever they are: the result is not false although the mask is not valid.
\<close>

theorem network_addr_match_ipv6_empty_mask:
  assumes "inet_aton L a = None \<or> inet_aton L b = None"
    and "inet_pton6 L a = Some a6" and "inet_pton6 L b = Some b6"
  shows "network_addr_match True L a b (Some '''')"
  using assms
  by (auto simp add: network_addr_match_def addr_match_ipv6_def strtoul_empty match6_loop_zero
        split: option.splits)


text \<open>2001:db8::1 and 2001:db9::1 match under the empty mask.\<close>

theorem network_addr_match_ipv6_empty_mask_witness:
  "network_addr_match True sample_libc ''2001:db8::1'' ''2001:db9::1'' (Some '''') \<and>
   \<not> is_decimal ''''"
proof -
  have a: "inet_aton sample_libc ''2001:db8::1'' = None \<or> inet_aton sample_libc ''2001:db9::1'' = None"
    by (simp add: sample_aton_db8_1)
  have b: "inet_pton6 sample_libc ''2001:db8::1'' = Some 0x20010db8000000000000000000000001"
    and c: "inet_pton6 sample_libc ''2001:db9::1'' = Some 0x20010db9000000000000000000000001"
    by (simp_all add: sample_db8_1 sample_db9_1)
  from network_addr_match_ipv6_empty_mask [OF a b c]
  show ?thesis by (simp add: is_decimal_def)
qed



section \<open>Connecting to the first candidate that answers\<close>

lemma connect_loop_Cons:
  "connect_loop h L W source (ai # rest) fd s =
     (case attempt h L W source ai fd s of
        (fd1, ok, s1) \<Rightarrow> if ok then (fd1, True, s1) else connect_loop h L W source rest fd1 s1)"
  by (simp add: attempt_def Let_def split_def)

lemma socket_calls_append [simp]: "socket_calls (xs @ ys) = socket_calls xs @ socket_calls ys"
  by (induction xs) (simp_all split: event.splits)

lemma socket_snapshots_append [simp]:
  "socket_snapshots (xs @ ys) = socket_snapshots xs @ socket_snapshots ys"
  by (induction xs) (simp_all split: event.splits)

text \<open>What one call adds to the log and does to the descriptors.\<close>

lemma sys_close_props:
  assumes "fd \<in> set (open_fds s)"
  shows "\<exists>r. events (snd (sys_close W fd s)) = events s @ [Ev_close fd r]"
    and "open_fds (snd (sys_close W fd s)) = removeAll fd (open_fds s)"
  using assms by (auto simp add: sys_close_def record_call_def split: option.splits)

lemma sys_socket_props:
  assumes "sys_socket W d t p s = (fd, s1)"
  shows "events s1 = events s @ [Ev_socket d t p (open_fds s) fd]"
    and "loop_inv (open_fds s) fd s1"
  using assms lowest_free_fresh [of "open_fds s"] lowest_free_nonneg [of "open_fds s"]
  by (auto simp add: sys_socket_def record_call_def Let_def loop_inv_def split: option.splits)

lemma sys_plain_props:
  assumes "sys_plain W ev s = (r, s1)"
  shows "events s1 = events s @ [ev r]" and "open_fds s1 = open_fds s" and "r = 0 \<or> r = -1"
  using assms by (auto simp add: sys_plain_def record_call_def split: option.splits)

lemma network_source_props:
  assumes "network_source h L W fd fam source s = (ok, s1)"
  shows "open_fds s1 = open_fds s"
    and "events s1 = events s \<or> (\<exists>a r. events s1 = events s @ [Ev_bind fd a r])"
  using assms
  by (auto simp add: network_source_def sys_bind_def split: option.splits if_splits prod.splits
        dest: sys_plain_props)


lemma is_connected_simps [simp]:
  "is_connected (Ev_connect fd a r) = (r = 0)"
  "\<not> is_connected (Ev_close fd r)"
  "\<not> is_connected (Ev_socket d t p snap r)"
  "\<not> is_connected (Ev_bind fd a r)"
  by (simp_all add: is_connected_def)

lemma is_close_simps [simp]:
  "is_close (Ev_close fd r)"
  "\<not> is_close (Ev_connect fd a r)"
  "\<not> is_close (Ev_socket d t p snap r)"
  "\<not> is_close (Ev_bind fd a r)"
  by (simp_all add: is_close_def)

lemma loop_inv_open_fds: "open_fds s1 = open_fds s \<Longrightarrow> loop_inv base fd s1 = loop_inv base fd s"
  by (simp add: loop_inv_def)

lemma attempt_props:
  assumes att: "attempt h L W source ai fd s = (fd1, ok, s1)"
    and inv: "loop_inv base fd s"
  shows "\<exists>evs. events s1 = events s @ evs \<and>
           socket_calls evs = [ai_triple ai] \<and> socket_snapshots evs = [base] \<and>
           loop_inv base fd1 s1 \<and> evs \<noteq> [] \<and> \<not> is_close (last evs) \<and>
           (ok \<longrightarrow> 0 \<le> fd1 \<and> last evs = Ev_connect fd1 (ai_addr ai) 0 \<and>
                   filter is_connected evs = [Ev_connect fd1 (ai_addr ai) 0]) \<and>
           (\<not> ok \<longrightarrow> filter is_connected evs = [])"
proof -
  define s0 where "s0 = (if fd \<ge> 0 then snd (sys_close W fd s) else s)"
  have s0: "open_fds s0 = base \<and>
            (\<exists>pre. events s0 = events s @ pre \<and> socket_calls pre = [] \<and>
                   socket_snapshots pre = [] \<and> filter is_connected pre = [])"
  proof (cases "fd \<ge> 0")
    case True
    with inv have o: "open_fds s = fd # base" "fd \<notin> set base"
      by (simp_all add: loop_inv_def)
    then have "fd \<in> set (open_fds s)" by simp
    from sys_close_props [OF this, of W] o True show ?thesis
      unfolding s0_def by auto
  next
    case False
    with inv show ?thesis unfolding s0_def by (simp add: loop_inv_def)
  qed
  then obtain pre where pre: "events s0 = events s @ pre" "socket_calls pre = []"
      "socket_snapshots pre = []" "filter is_connected pre = []" and base: "open_fds s0 = base"
    by blast
  obtain fdn sn where sock:
      "sys_socket W (ai_family ai) (ai_socktype ai) (ai_protocol ai) s0 = (fdn, sn)"
    by (cases "sys_socket W (ai_family ai) (ai_socktype ai) (ai_protocol ai) s0")
  note sp = sys_socket_props [OF sock, unfolded base]
  have evn: "events sn = events s @ (pre @ [Ev_socket (ai_family ai) (ai_socktype ai) (ai_protocol ai) base fdn])"
    using sp(1) pre(1) by simp
  show ?thesis
  proof (cases "fdn < 0")
    case True
    with att sock have "fd1 = fdn" "\<not> ok" "s1 = sn"
      by (simp_all add: attempt_def s0_def [symmetric])
    with evn sp(2) pre show ?thesis
      by (intro exI [of _ "pre @ [Ev_socket (ai_family ai) (ai_socktype ai) (ai_protocol ai) base fdn]"])
         (auto simp add: ai_triple_def)
  next
    case nonneg: False
    obtain ok2 s2 where src: "network_source h L W fdn (ai_family ai) source sn = (ok2, s2)"
      by (cases "network_source h L W fdn (ai_family ai) source sn")
    note np = network_source_props [OF src]
    have "\<exists>mid. events s2 = events sn @ mid \<and> socket_calls mid = [] \<and>
            socket_snapshots mid = [] \<and> filter is_connected mid = [] \<and>
            (mid = [] \<or> \<not> is_close (last mid))"
      using np(2)
    proof (elim disjE exE)
      assume "events s2 = events sn"
      then show ?thesis by (intro exI [of _ "[]"]) simp
    next
      fix a r assume "events s2 = events sn @ [Ev_bind fdn a r]"
      then show ?thesis by (intro exI [of _ "[Ev_bind fdn a r]"]) simp
    qed
    then obtain mid where mid: "events s2 = events sn @ mid" "socket_calls mid = []"
        "socket_snapshots mid = []" "filter is_connected mid = []"
        "mid = [] \<or> \<not> is_close (last mid)"
      by blast
    have inv2: "loop_inv base fdn s2"
      using sp(2) loop_inv_open_fds [OF np(1), of base fdn] by simp
    show ?thesis
    proof (cases ok2)
      case False
      with att sock src nonneg have "fd1 = fdn" "\<not> ok" "s1 = s2"
        by (simp_all add: attempt_def s0_def [symmetric])
      with evn mid pre inv2 show ?thesis
        by (intro exI [of _ "pre @ [Ev_socket (ai_family ai) (ai_socktype ai) (ai_protocol ai) base fdn] @ mid"])
           (auto simp add: ai_triple_def)
    next
      case True
      obtain r s3 where con: "sys_connect W fdn (ai_addr ai) s2 = (r, s3)"
        by (cases "sys_connect W fdn (ai_addr ai) s2")
      note cp = sys_plain_props [OF con [unfolded sys_connect_def]]
      from att sock src nonneg True con have res: "fd1 = fdn" "ok = (r = 0)" "s1 = s3"
        by (simp_all add: attempt_def s0_def [symmetric])
      have inv3: "loop_inv base fdn s3"
        using inv2 loop_inv_open_fds [OF cp(2), of base fdn] by simp
      have ev3: "events s3 = events s @ (pre @ [Ev_socket (ai_family ai) (ai_socktype ai) (ai_protocol ai) base fdn] @ mid @ [Ev_connect fdn (ai_addr ai) r])"
        using cp(1) mid(1) evn by simp
      show ?thesis
        using res ev3 pre mid inv3 nonneg
        by (intro exI [of _ "pre @ [Ev_socket (ai_family ai) (ai_socktype ai) (ai_protocol ai) base fdn] @ mid @ [Ev_connect fdn (ai_addr ai) r]"])
           (auto simp add: ai_triple_def)
    qed
  qed
qed


lemma connect_loop_props:
  assumes "connect_loop h L W source ais fd s = (fd', ok, s')" and "loop_inv base fd s"
  shows "\<exists>evs. events s' = events s @ evs \<and>
           prefix (socket_calls evs) (map ai_triple ais) \<and>
           (\<forall>snap\<in>set (socket_snapshots evs). snap = base) \<and>
           loop_inv base fd' s' \<and> (evs = [] \<or> \<not> is_close (last evs)) \<and>
           (ok \<longrightarrow> 0 \<le> fd' \<and> evs \<noteq> [] \<and> socket_calls evs \<noteq> [] \<and>
                   last evs = Ev_connect fd' (ai_addr (ais ! (length (socket_calls evs) - 1))) 0 \<and>
                   filter is_connected evs = [last evs]) \<and>
           (\<not> ok \<longrightarrow> socket_calls evs = map ai_triple ais \<and> filter is_connected evs = [])"
  using assms
proof (induction ais arbitrary: fd s)
  case Nil
  then show ?case by (intro exI [of _ "[]"]) simp
next
  case (Cons ai rest)
  obtain fd1 ok1 s1 where att: "attempt h L W source ai fd s = (fd1, ok1, s1)"
    by (cases "attempt h L W source ai fd s")
  from attempt_props [OF att Cons.prems(2)] obtain evs1 where
    e1: "events s1 = events s @ evs1" "socket_calls evs1 = [ai_triple ai]"
        "socket_snapshots evs1 = [base]" "loop_inv base fd1 s1"
        "evs1 \<noteq> []" "\<not> is_close (last evs1)"
    and ok1: "ok1 \<longrightarrow> 0 \<le> fd1 \<and> last evs1 = Ev_connect fd1 (ai_addr ai) 0 \<and>
                   filter is_connected evs1 = [Ev_connect fd1 (ai_addr ai) 0]"
    and nok1: "\<not> ok1 \<longrightarrow> filter is_connected evs1 = []"
    by blast
  show ?case
  proof (cases ok1)
    case True
    with Cons.prems(1) [unfolded connect_loop_Cons] att have "fd' = fd1" "ok" "s' = s1"
      by simp_all
    with True e1 ok1 show ?thesis
      by (intro exI [of _ evs1]) simp
  next
    case False
    with Cons.prems(1) [unfolded connect_loop_Cons] att
    have rec: "connect_loop h L W source rest fd1 s1 = (fd', ok, s')"
      by simp
    from Cons.IH [OF rec e1(4)] obtain evs2 where
      e2: "events s' = events s1 @ evs2" "prefix (socket_calls evs2) (map ai_triple rest)"
          "\<forall>snap\<in>set (socket_snapshots evs2). snap = base" "loop_inv base fd' s'"
          "evs2 = [] \<or> \<not> is_close (last evs2)"
      and ok2: "ok \<longrightarrow> 0 \<le> fd' \<and> evs2 \<noteq> [] \<and> socket_calls evs2 \<noteq> [] \<and>
                   last evs2 = Ev_connect fd' (ai_addr (rest ! (length (socket_calls evs2) - 1))) 0 \<and>
                   filter is_connected evs2 = [last evs2]"
      and nok2: "\<not> ok \<longrightarrow> socket_calls evs2 = map ai_triple rest \<and> filter is_connected evs2 = []"
      by blast
    have idx: "socket_calls evs2 \<noteq> [] \<Longrightarrow>
                 (ai # rest) ! (length (socket_calls (evs1 @ evs2)) - 1) =
                 rest ! (length (socket_calls evs2) - 1)"
      using e1(2) by (cases "socket_calls evs2") simp_all
    show ?thesis
    proof (intro exI [of _ "evs1 @ evs2"] conjI impI)
      show "events s' = events s @ evs1 @ evs2" using e1(1) e2(1) by simp
      show "prefix (socket_calls (evs1 @ evs2)) (map ai_triple (ai # rest))"
        using e1(2) e2(2) by simp
      show "\<forall>snap\<in>set (socket_snapshots (evs1 @ evs2)). snap = base"
        using e1(3) e2(3) by simp
      show "loop_inv base fd' s'" by (rule e2(4))
      show "evs1 @ evs2 = [] \<or> \<not> is_close (last (evs1 @ evs2))"
        using e1(5,6) e2(5) by (cases "evs2 = []") simp_all
    next
      assume ok
      with ok2 show "0 \<le> fd'" "evs1 @ evs2 \<noteq> []" "socket_calls (evs1 @ evs2) \<noteq> []"
        by simp_all
      from \<open>ok\<close> ok2 idx
      show "last (evs1 @ evs2) =
              Ev_connect fd' (ai_addr ((ai # rest) ! (length (socket_calls (evs1 @ evs2)) - 1))) 0"
        by simp
      from \<open>ok\<close> ok2 nok1 False
      show "filter is_connected (evs1 @ evs2) = [last (evs1 @ evs2)]"
        by simp
    next
      assume "\<not> ok"
      with nok2 nok1 False e1(2)
      show "socket_calls (evs1 @ evs2) = map ai_triple (ai # rest)"
        "filter is_connected (evs1 @ evs2) = []"
        by simp_all
    qed
  qed
qed


lemma errno_after_add:
  "errno_after W c (k1 + k2) e = errno_after W (c + k1) k2 (errno_after W c k1 e)"
  by (induction k1 arbitrary: c e) simp_all

lemma tracks_refl: "tracks W s s"
  by (auto simp add: tracks_def intro: exI [of _ 0])

lemma tracks_eq: "clock s1 = clock s \<Longrightarrow> events s1 = events s \<Longrightarrow> errno s1 = errno s \<Longrightarrow> tracks W s s1"
  by (auto simp add: tracks_def intro: exI [of _ 0])

lemma tracks_trans:
  assumes "tracks W s s1" and "tracks W s1 s2"
  shows "tracks W s s2"
proof -
  from assms(1) obtain k1 where k1: "clock s1 = clock s + k1"
      "length (events s1) = length (events s) + k1" "errno s1 = errno_after W (clock s) k1 (errno s)"
    unfolding tracks_def by blast
  from assms(2) obtain k2 where k2: "clock s2 = clock s1 + k2"
      "length (events s2) = length (events s1) + k2" "errno s2 = errno_after W (clock s1) k2 (errno s1)"
    unfolding tracks_def by blast
  show ?thesis
    unfolding tracks_def using k1 k2
    by (intro exI [of _ "k1 + k2"]) (simp add: errno_after_add)
qed

lemma tracks_call:
  assumes "clock s1 = Suc (clock s)" and "length (events s1) = Suc (length (events s))"
    and "errno s1 = (case sys_fail W (clock s) of None \<Rightarrow> errno s | Some e \<Rightarrow> e)"
  shows "tracks W s s1"
  unfolding tracks_def using assms by (intro exI [of _ 1]) simp

lemma tracks_sys_close: "fd \<in> set (open_fds s) \<Longrightarrow> tracks W s (snd (sys_close W fd s))"
  by (rule tracks_call) (auto simp add: sys_close_def record_call_def split: option.splits)

lemma tracks_sys_socket: "sys_socket W d t p s = (fd, s1) \<Longrightarrow> tracks W s s1"
  by (rule tracks_call)
     (auto simp add: sys_socket_def record_call_def Let_def split: option.splits)

lemma tracks_sys_plain: "sys_plain W ev s = (r, s1) \<Longrightarrow> tracks W s s1"
  by (rule tracks_call) (auto simp add: sys_plain_def record_call_def split: option.splits)

lemma tracks_network_source:
  "network_source h L W fd fam source s = (ok, s1) \<Longrightarrow> tracks W s s1"
  by (auto simp add: network_source_def sys_bind_def tracks_refl
        split: option.splits if_splits prod.splits intro: tracks_sys_plain)

lemma tracks_attempt:
  assumes att: "attempt h L W source ai fd s = (fd1, ok, s1)"
    and inv: "loop_inv base fd s"
  shows "tracks W s s1"
proof -
  define s0 where "s0 = (if fd \<ge> 0 then snd (sys_close W fd s) else s)"
  have t0: "tracks W s s0"
  proof (cases "fd \<ge> 0")
    case True
    with inv have "fd \<in> set (open_fds s)" by (simp add: loop_inv_def)
    with True show ?thesis unfolding s0_def by (simp add: tracks_sys_close)
  next
    case False
    then show ?thesis unfolding s0_def by (simp add: tracks_refl)
  qed
  obtain fdn sn where sock:
      "sys_socket W (ai_family ai) (ai_socktype ai) (ai_protocol ai) s0 = (fdn, sn)"
    by (cases "sys_socket W (ai_family ai) (ai_socktype ai) (ai_protocol ai) s0")
  have tn: "tracks W s sn"
    using t0 tracks_sys_socket [OF sock] by (rule tracks_trans)
  obtain ok2 s2 where src: "network_source h L W fdn (ai_family ai) source sn = (ok2, s2)"
    by (cases "network_source h L W fdn (ai_family ai) source sn")
  have t2: "tracks W s s2"
    using tn tracks_network_source [OF src] by (rule tracks_trans)
  obtain r s3 where con: "sys_connect W fdn (ai_addr ai) s2 = (r, s3)"
    by (cases "sys_connect W fdn (ai_addr ai) s2")
  have t3: "tracks W s s3"
    using t2 tracks_sys_plain [OF con [unfolded sys_connect_def]] by (rule tracks_trans)
  from att sock src con have "s1 = sn \<or> s1 = s2 \<or> s1 = s3"
    by (auto simp add: attempt_def s0_def [symmetric] split: if_splits)
  with tn t2 t3 show ?thesis by blast
qed

lemma tracks_connect_loop:
  assumes "connect_loop h L W source ais fd s = (fd', ok, s')" and "loop_inv base fd s"
  shows "tracks W s s'"
  using assms
proof (induction ais arbitrary: fd s)
  case Nil
  then show ?case by (simp add: tracks_refl)
next
  case (Cons ai rest)
  obtain fd1 ok1 s1 where att: "attempt h L W source ai fd s = (fd1, ok1, s1)"
    by (cases "attempt h L W source ai fd s")
  have t1: "tracks W s s1"
    using att Cons.prems(2) by (rule tracks_attempt)
  from attempt_props [OF att Cons.prems(2)] have inv1: "loop_inv base fd1 s1"
    by blast
  show ?case
  proof (cases ok1)
    case True
    with Cons.prems(1) [unfolded connect_loop_Cons] att have "s' = s1" by simp
    with t1 show ?thesis by simp
  next
    case False
    with Cons.prems(1) [unfolded connect_loop_Cons] att
    have rec: "connect_loop h L W source rest fd1 s1 = (fd', ok, s')"
      by simp
    from t1 Cons.IH [OF rec inv1] show ?thesis by (rule tracks_trans)
  qed
qed



text \<open>The errno that a sequence of calls leaves.\<close>

lemma new_events_append: "events s' = events s @ evs \<Longrightarrow> new_events s s' = evs"
  by (simp add: new_events_def)

lemma loop_inv_start: "loop_inv (open_fds s) (-1) s"
  by (simp add: loop_inv_def)

lemmas run_defs = network_connect_def sys_socket_def sys_close_def sys_connect_def sys_plain_def
  record_call_def network_source_def calm_world_def failing_world_def refusing_world_def
  initial_state_def candidate_a_def candidate_b_def lowest_free_def Let_def


lemma connect_second:
  "network_connect True sample_libc (failing_world 1 111) [candidate_a, candidate_b] None initial_state =
     (3, \<lparr>open_fds = [3, 0, 1, 2], errno = 111, clock = 5,
          events = [Ev_socket AF_INET 1 6 [0, 1, 2] 3, Ev_connect 3 (Sockaddr_in 4373 0xC0000201) (-1),
                    Ev_close 3 0, Ev_socket AF_INET 1 6 [0, 1, 2] 3,
                    Ev_connect 3 (Sockaddr_in 4373 0xC0000202) 0]\<rparr>)"
  by (simp add: run_defs)

lemma connect_none:
  "network_connect True sample_libc refusing_world [candidate_a, candidate_b] None initial_state =
     (-1, \<lparr>open_fds = [0, 1, 2], errno = 111, clock = 6,
          events = [Ev_socket AF_INET 1 6 [0, 1, 2] 3, Ev_connect 3 (Sockaddr_in 4373 0xC0000201) (-1),
                    Ev_close 3 0, Ev_socket AF_INET 1 6 [0, 1, 2] 3,
                    Ev_connect 3 (Sockaddr_in 4373 0xC0000202) (-1), Ev_close 3 (-1)]\<rparr>)"
  by (simp add: run_defs)


text \<open>The calls of one iteration, of the loop and of the whole function, each after the other.\<close>

lemma followed_append:
  "followed P (xs @ ys) nxt =
     (followed P xs (case ys of [] \<Rightarrow> nxt | y # ys' \<Rightarrow> Some y) \<and> followed P ys nxt)"
  by (induction xs) (auto split: list.splits)

lemma connect_addrs_append [simp]: "connect_addrs (xs @ ys) = connect_addrs xs @ connect_addrs ys"
  by (induction xs) (simp_all split: event.splits)

lemma next_simps [simp]:
  "is_socket (Some (Ev_socket d t p snap r))"
  "\<not> is_socket None"
  "\<not> is_socket (Some (Ev_close fd r))"
  "\<not> is_socket (Some (Ev_bind fd b r))"
  "\<not> is_socket (Some (Ev_connect fd b r))"
  "is_close_of fd (Some (Ev_close fd' r)) = (fd' = fd)"
  "\<not> is_close_of fd None"
  "\<not> is_close_of fd (Some (Ev_socket d t p snap r))"
  "\<not> is_close_of fd (Some (Ev_bind fd' b r))"
  "\<not> is_close_of fd (Some (Ev_connect fd' b r))"
  "is_connect_of fd (Some (Ev_connect fd' b r)) = (fd' = fd)"
  "\<not> is_connect_of fd None"
  "\<not> is_connect_of fd (Some (Ev_socket d t p snap r))"
  "\<not> is_connect_of fd (Some (Ev_bind fd' b r))"
  "\<not> is_connect_of fd (Some (Ev_close fd' r))"
  "is_bind_of fd b (Some (Ev_bind fd' b' r)) = (fd' = fd \<and> b' = b)"
  "\<not> is_bind_of fd b None"
  "\<not> is_bind_of fd b (Some (Ev_socket d t p snap r))"
  "\<not> is_bind_of fd b (Some (Ev_connect fd' b' r))"
  "\<not> is_bind_of fd b (Some (Ev_close fd' r))"
  by (simp_all add: is_socket_def is_close_of_def is_connect_of_def is_bind_of_def)

lemma network_source_requirement:
  assumes "network_source h L W fd fam source s = (ok, s1)"
  shows "case source_requirement h L fam source of
           No_binding \<Rightarrow> ok \<and> events s1 = events s
         | Unusable \<Rightarrow> \<not> ok \<and> events s1 = events s
         | Bind_to b \<Rightarrow> \<exists>r. events s1 = events s @ [Ev_bind fd b r] \<and> ok = (r = 0)"
  using assms
  by (auto simp add: network_source_def source_requirement_def sys_bind_def
        split: option.splits if_splits prod.splits dest: sys_plain_props(1))

lemma attempt_calls:
  assumes att: "attempt h L W source ai fd s = (fd1, ok, s1)"
    and inv: "loop_inv base fd s"
  shows "\<exists>evs. events s1 = events s @ evs \<and> evs \<noteq> [] \<and> starts fd (hd evs) \<and>
           (\<forall>nxt. ends ok fd1 nxt \<longrightarrow> followed (next_call h L source) evs nxt) \<and>
           subseq (connect_addrs evs) [ai_addr ai]"
proof -
  let ?P = "next_call h L source"
  define s0 where "s0 = (if fd \<ge> 0 then snd (sys_close W fd s) else s)"
  have "\<exists>pre. events s0 = events s @ pre \<and> connect_addrs pre = [] \<and>
          (\<forall>e. starts fd (hd (pre @ [e])) = is_socket (Some e) \<or> pre \<noteq> []) \<and>
          (pre \<noteq> [] \<longrightarrow> starts fd (hd pre)) \<and>
          (\<forall>e. is_socket (Some e) \<longrightarrow> followed ?P pre (Some e))"
  proof (cases "fd \<ge> 0")
    case True
    with inv have "fd \<in> set (open_fds s)" by (simp add: loop_inv_def)
    from sys_close_props(1) [OF this, of W] obtain c where
      "events (snd (sys_close W fd s)) = events s @ [Ev_close fd c]" by blast
    with True show ?thesis
      unfolding s0_def
      by (intro exI [of _ "[Ev_close fd c]"]) (simp add: starts_def next_call_def)
  next
    case False
    then show ?thesis
      unfolding s0_def by (intro exI [of _ "[]"]) (simp add: starts_def)
  qed
  then obtain pre where pre: "events s0 = events s @ pre" "connect_addrs pre = []"
      "\<And>e. is_socket (Some e) \<Longrightarrow> starts fd (hd (pre @ [e]))"
      "\<And>e. is_socket (Some e) \<Longrightarrow> followed ?P pre (Some e)"
    by (metis hd_append2)
  obtain fdn sn where sock:
      "sys_socket W (ai_family ai) (ai_socktype ai) (ai_protocol ai) s0 = (fdn, sn)"
    by (cases "sys_socket W (ai_family ai) (ai_socktype ai) (ai_protocol ai) s0")
  define so where "so = Ev_socket (ai_family ai) (ai_socktype ai) (ai_protocol ai) (open_fds s0) fdn"
  have evn: "events sn = events s @ pre @ [so]"
    using sys_socket_props(1) [OF sock] pre(1) by (simp add: so_def)
  have so: "is_socket (Some so)" "connect_addrs [so] = []"
    by (simp_all add: so_def)
  have st: "starts fd (hd (pre @ so # rest))" for rest
    using pre(3) [OF so(1)] by (cases pre) simp_all
  have fpre: "followed ?P pre (Some so)"
    by (rule pre(4) [OF so(1)])
  show ?thesis
  proof (cases "fdn < 0")
    case True
    with att sock have res: "fd1 = fdn" "\<not> ok" "s1 = sn"
      by (simp_all add: attempt_def s0_def [symmetric])
    show ?thesis
      using res evn st [of "[]"] fpre pre(2) True
      by (intro exI [of _ "pre @ [so]"])
         (simp add: followed_append so_def next_call_def ends_def)
  next
    case nonneg: False
    obtain ok2 s2 where src: "network_source h L W fdn (ai_family ai) source sn = (ok2, s2)"
      by (cases "network_source h L W fdn (ai_family ai) source sn")
    note req = network_source_requirement [OF src]
    obtain r s3 where con: "sys_connect W fdn (ai_addr ai) s2 = (r, s3)"
      by (cases "sys_connect W fdn (ai_addr ai) s2")
    note cp = sys_plain_props [OF con [unfolded sys_connect_def]]
    from att sock src nonneg con have res: "fd1 = fdn" "ok = (ok2 \<and> r = 0)"
        "s1 = (if ok2 then s3 else s2)"
      by (auto simp add: attempt_def s0_def [symmetric] split: if_splits)
    show ?thesis
    proof (cases "source_requirement h L (ai_family ai) source")
      case No_binding
      with req have "ok2" "events s2 = events sn" by simp_all
      with res cp(1) evn have ev: "events s1 = events s @ pre @ [so, Ev_connect fdn (ai_addr ai) r]"
        and ok: "ok = (r = 0)"
        by simp_all
      show ?thesis
        using ev ok res(1) st [of "[Ev_connect fdn (ai_addr ai) r]"] fpre pre(2) nonneg No_binding
        by (intro exI [of _ "pre @ [so, Ev_connect fdn (ai_addr ai) r]"])
           (simp add: followed_append so_def next_call_def ends_def)
    next
      case Unusable
      with req have "\<not> ok2" "events s2 = events sn" by simp_all
      with res evn have ev: "events s1 = events s @ pre @ [so]" and ok: "\<not> ok"
        by simp_all
      show ?thesis
        using ev ok res(1) st [of "[]"] fpre pre(2) nonneg Unusable
        by (intro exI [of _ "pre @ [so]"])
           (simp add: followed_append so_def next_call_def ends_def)
    next
      case (Bind_to b)
      with req obtain rb where rb: "events s2 = events sn @ [Ev_bind fdn b rb]" "ok2 = (rb = 0)"
        by auto
      show ?thesis
      proof (cases "rb = 0")
        case True
        with rb res cp(1) evn have
          ev: "events s1 = events s @ pre @ [so, Ev_bind fdn b rb, Ev_connect fdn (ai_addr ai) r]"
          and ok: "ok = (r = 0)"
          by simp_all
        show ?thesis
          using ev ok res(1) st [of "[Ev_bind fdn b rb, Ev_connect fdn (ai_addr ai) r]"] fpre pre(2)
            nonneg Bind_to True
          by (intro exI [of _ "pre @ [so, Ev_bind fdn b rb, Ev_connect fdn (ai_addr ai) r]"])
             (simp add: followed_append so_def next_call_def ends_def)
      next
        case False
        with rb res evn have ev: "events s1 = events s @ pre @ [so, Ev_bind fdn b rb]"
          and ok: "\<not> ok"
          by simp_all
        show ?thesis
          using ev ok res(1) st [of "[Ev_bind fdn b rb]"] fpre pre(2) nonneg Bind_to False
          by (intro exI [of _ "pre @ [so, Ev_bind fdn b rb]"])
             (simp add: followed_append so_def next_call_def ends_def)
      qed
    qed
  qed
qed

lemma starts_ends: "starts fd e \<Longrightarrow> ends False fd (Some e)"
  by (simp add: starts_def ends_def)

lemma connect_loop_calls:
  assumes "connect_loop h L W source ais fd s = (fd', ok, s')" and "loop_inv base fd s"
  shows "\<exists>evs. events s' = events s @ evs \<and>
           (evs \<noteq> [] \<longrightarrow> starts fd (hd evs)) \<and> (evs = [] \<longrightarrow> fd' = fd \<and> \<not> ok) \<and>
           (\<forall>nxt. ends ok fd' nxt \<longrightarrow> followed (next_call h L source) evs nxt) \<and>
           subseq (connect_addrs evs) (map ai_addr ais)"
  using assms
proof (induction ais arbitrary: fd s)
  case Nil
  then show ?case by (intro exI [of _ "[]"]) simp
next
  case (Cons ai rest)
  let ?P = "next_call h L source"
  obtain fd1 ok1 s1 where att: "attempt h L W source ai fd s = (fd1, ok1, s1)"
    by (cases "attempt h L W source ai fd s")
  from attempt_calls [OF att Cons.prems(2)] obtain evs1 where
    e1: "events s1 = events s @ evs1" "evs1 \<noteq> []" "starts fd (hd evs1)"
        "\<And>nxt. ends ok1 fd1 nxt \<Longrightarrow> followed ?P evs1 nxt"
        "subseq (connect_addrs evs1) [ai_addr ai]"
    by blast
  from attempt_props [OF att Cons.prems(2)] have inv1: "loop_inv base fd1 s1"
    by blast
  show ?case
  proof (cases ok1)
    case True
    with Cons.prems(1) [unfolded connect_loop_Cons] att have res: "fd' = fd1" "ok" "s' = s1"
      by simp_all
    have "subseq (connect_addrs evs1 @ []) ([ai_addr ai] @ map ai_addr rest)"
      using e1(5) by (intro list_emb_append_mono) simp_all
    with res True e1 show ?thesis
      by (intro exI [of _ evs1]) simp
  next
    case False
    with Cons.prems(1) [unfolded connect_loop_Cons] att
    have rec: "connect_loop h L W source rest fd1 s1 = (fd', ok, s')"
      by simp
    from Cons.IH [OF rec inv1] obtain evs2 where
      e2: "events s' = events s1 @ evs2" "evs2 \<noteq> [] \<longrightarrow> starts fd1 (hd evs2)"
          "evs2 = [] \<longrightarrow> fd' = fd1 \<and> \<not> ok"
          "\<And>nxt. ends ok fd' nxt \<Longrightarrow> followed ?P evs2 nxt"
          "subseq (connect_addrs evs2) (map ai_addr rest)"
      by blast
    have link: "followed ?P (evs1 @ evs2) nxt" if nxt: "ends ok fd' nxt" for nxt
    proof (cases evs2)
      case Nil
      with e2(3) False nxt have "ends ok1 fd1 nxt" by simp
      from e1(4) [OF this] Nil show ?thesis by simp
    next
      case (Cons y ys)
      with e2(2) have "starts fd1 y" by simp
      then have "ends ok1 fd1 (Some y)"
        using False by (simp add: starts_ends)
      from e1(4) [OF this] e2(4) [OF nxt] Cons show ?thesis
        by (simp add: followed_append)
    qed
    have sub: "subseq (connect_addrs (evs1 @ evs2)) (map ai_addr (ai # rest))"
      using list_emb_append_mono [OF e1(5) e2(5)] by simp
    show ?thesis
      using e1(1,2,3) e2(1) link sub
      by (intro exI [of _ "evs1 @ evs2"]) simp
  qed
qed

lemma network_connect_calls:
  assumes "network_connect h L W ais source s = (r, s')"
  shows "followed (next_call h L source) (new_events s s') None \<and>
         subseq (connect_addrs (new_events s s')) (map ai_addr ais)"
proof -
  let ?P = "next_call h L source"
  obtain fd ok s1 where loop: "connect_loop h L W source ais (-1) s = (fd, ok, s1)"
    by (cases "connect_loop h L W source ais (-1) s")
  from connect_loop_calls [OF loop loop_inv_start] obtain evs where
    e: "events s1 = events s @ evs"
       "\<And>nxt. ends ok fd nxt \<Longrightarrow> followed ?P evs nxt"
       "subseq (connect_addrs evs) (map ai_addr ais)"
    by blast
  from connect_loop_props [OF loop loop_inv_start] have inv: "loop_inv (open_fds s) fd s1"
    by blast
  show ?thesis
  proof (cases "ok \<or> \<not> fd \<ge> 0")
    case True
    with assms loop have res: "s' = s1"
      by (auto simp add: network_connect_def split: if_splits)
    have ne: "new_events s s' = evs"
      using e(1) res by (simp add: new_events_append)
    from True have "ends ok fd None" by (auto simp add: ends_def)
    from e(2) [OF this] e(3) show ?thesis unfolding ne by simp
  next
    case False
    with assms loop have res: "s' = (snd (sys_close W fd s1))\<lparr>errno := errno s1\<rparr>"
      by (simp_all add: network_connect_def Let_def)
    from False inv have "fd \<in> set (open_fds s1)" by (simp add: loop_inv_def)
    from sys_close_props(1) [OF this, of W] obtain c where
      "events (snd (sys_close W fd s1)) = events s1 @ [Ev_close fd c]" by blast
    then have ev: "events s' = events s @ (evs @ [Ev_close fd c])"
      using res e(1) by simp
    have ne: "new_events s s' = evs @ [Ev_close fd c]"
      using ev by (rule new_events_append)
    from False have "ends ok fd (Some (Ev_close fd c))" by (simp add: ends_def)
    from e(2) [OF this] e(3) show ?thesis
      unfolding ne by (simp add: followed_append next_call_def)
  qed
qed

lemma sample_192_0_2_10: "sample_inet_aton ''192.0.2.10'' = Some 0xC000020A"
  by (simp add: sample_inet_aton_def quad_part_def isdigit_def decimal_def)

lemma sample_pton6_192_0_2_10: "sample_inet_pton6 ''192.0.2.10'' = None"
  by (simp add: sample_inet_pton6_def hex_groups_def hex_group_def hex_digit_def)

lemma connect_from_source:
  "network_connect True sample_libc (failing_world 3 99) [candidate_c, candidate_a, candidate_b]
     (Some ''192.0.2.10'') initial_state =
     (3, \<lparr>open_fds = [3, 0, 1, 2], errno = 99, clock = 8,
          events = [Ev_socket AF_INET6 1 6 [0, 1, 2] 3, Ev_close 3 0,
                    Ev_socket AF_INET 1 6 [0, 1, 2] 3,
                    Ev_bind 3 (Sockaddr_in 0 0xC000020A) (-1), Ev_close 3 0,
                    Ev_socket AF_INET 1 6 [0, 1, 2] 3,
                    Ev_bind 3 (Sockaddr_in 0 0xC000020A) 0,
                    Ev_connect 3 (Sockaddr_in 4373 0xC0000202) 0]\<rparr>)"
  by (simp add: run_defs candidate_c_def sys_bind_def sample_192_0_2_10 sample_pton6_192_0_2_10)

lemma network_connect_sockets:
  assumes "network_connect h L W ais source s = (r, s')"
  shows "events s' = events s @ new_events s s' \<and>
         prefix (socket_calls (new_events s s')) (map ai_triple ais) \<and>
         (\<forall>snap\<in>set (socket_snapshots (new_events s s')). snap = open_fds s) \<and>
         (r = -1 \<longrightarrow> socket_calls (new_events s s') = map ai_triple ais) \<and>
         (r \<noteq> -1 \<longrightarrow>
            0 \<le> r \<and> open_fds s' = r # open_fds s \<and> socket_calls (new_events s s') \<noteq> [] \<and>
            last (new_events s s') =
              Ev_connect r (ai_addr (ais ! (length (socket_calls (new_events s s')) - 1))) 0 \<and>
            filter is_connected (new_events s s') = [last (new_events s s')])"
proof -
  obtain fd ok s1 where loop: "connect_loop h L W source ais (-1) s = (fd, ok, s1)"
    by (cases "connect_loop h L W source ais (-1) s")
  from connect_loop_props [OF loop loop_inv_start] obtain evs where
    e: "events s1 = events s @ evs" "prefix (socket_calls evs) (map ai_triple ais)"
       "\<forall>snap\<in>set (socket_snapshots evs). snap = open_fds s" "loop_inv (open_fds s) fd s1"
    and ok: "ok \<longrightarrow> 0 \<le> fd \<and> evs \<noteq> [] \<and> socket_calls evs \<noteq> [] \<and>
                   last evs = Ev_connect fd (ai_addr (ais ! (length (socket_calls evs) - 1))) 0 \<and>
                   filter is_connected evs = [last evs]"
    and nok: "\<not> ok \<longrightarrow> socket_calls evs = map ai_triple ais \<and> filter is_connected evs = []"
    by blast
  show ?thesis
  proof (cases ok)
    case True
    with assms loop have res: "r = fd" "s' = s1"
      by (simp_all add: network_connect_def)
    have ne: "new_events s s' = evs"
      using e(1) res by (simp add: new_events_append)
    from True ok have "0 \<le> fd" by simp
    then have "fd \<noteq> -1" "open_fds s1 = fd # open_fds s"
      using e(4) by (simp_all add: loop_inv_def)
    with True ok e res show ?thesis unfolding ne by simp
  next
    case False
    show ?thesis
    proof (cases "fd \<ge> 0")
      case neg: False
      with assms loop False have res: "r = -1" "s' = s1"
        by (simp_all add: network_connect_def)
      have ne: "new_events s s' = evs"
        using e(1) res by (simp add: new_events_append)
      from False nok e res show ?thesis unfolding ne by simp
    next
      case True
      with assms loop False have res: "r = -1"
          "s' = (snd (sys_close W fd s1))\<lparr>errno := errno s1\<rparr>"
        by (simp_all add: network_connect_def Let_def)
      from True e(4) have "fd \<in> set (open_fds s1)" by (simp add: loop_inv_def)
      from sys_close_props(1) [OF this, of W] obtain c where
        "events (snd (sys_close W fd s1)) = events s1 @ [Ev_close fd c]" by blast
      then have ev: "events s' = events s @ (evs @ [Ev_close fd c])"
        using res(2) e(1) by simp
      have ne: "new_events s s' = evs @ [Ev_close fd c]"
        using ev by (rule new_events_append)
      from False nok e res(1) ev show ?thesis unfolding ne by simp
    qed
  qed
qed


text \<open>
  C6.  The \<^verbatim>\<open>socket\<close> calls of \<open>network_connect\<close> are made for the candidates in the
  order supplied, for a prefix of the list, and each is made with exactly the
  descriptors open that were open at entry: the socket of the attempt before has
  been closed.  When the call returns -1, a socket was requested for every
  candidate: failing to create a socket, to bind the source or to connect for one
  candidate does not end the call.  When it returns a descriptor, the last call
  logged is the successful \<^verbatim>\<open>connect\<close> of that descriptor to the address of the last
  candidate attempted, it is the only successful \<^verbatim>\<open>connect\<close>, and the descriptor is
  the one descriptor added to those open.

  Every call of the log is followed by the call that \<open>next_call\<close> allows.  A socket is
  connected only as the source allows for its family: at once when no binding is
  required, and otherwise only after the \<^verbatim>\<open>bind\<close> of that descriptor to the source address
  has succeeded; a socket whose \<^verbatim>\<open>bind\<close> failed, or for whose family the source is not an
  address, is closed without a \<^verbatim>\<open>connect\<close>, and the next candidate's socket is requested.
  Nothing is logged after a successful \<^verbatim>\<open>connect\<close>.  The addresses of the \<^verbatim>\<open>connect\<close> calls
  are addresses of the candidates, in the order of the list.
\<close>

theorem network_connect_in_order:
  assumes "network_connect h L W ais source s = (r, s')"
  shows "events s' = events s @ new_events s s' \<and>
         prefix (socket_calls (new_events s s')) (map ai_triple ais) \<and>
         (\<forall>snap\<in>set (socket_snapshots (new_events s s')). snap = open_fds s) \<and>
         (r = -1 \<longrightarrow> socket_calls (new_events s s') = map ai_triple ais) \<and>
         (r \<noteq> -1 \<longrightarrow>
            0 \<le> r \<and> open_fds s' = r # open_fds s \<and> socket_calls (new_events s s') \<noteq> [] \<and>
            last (new_events s s') =
              Ev_connect r (ai_addr (ais ! (length (socket_calls (new_events s s')) - 1))) 0 \<and>
            filter is_connected (new_events s s') = [last (new_events s s')]) \<and>
         followed (next_call h L source) (new_events s s') None \<and>
         subseq (connect_addrs (new_events s s')) (map ai_addr ais)"
  using network_connect_sockets [OF assms] network_connect_calls [OF assms] by simp


text \<open>
  With a first candidate that refuses the connection and a second that accepts it,
  and no source, the call returns the second socket, descriptor 3 again after the
  first was closed.  With the source 192.0.2.10, an IPv6 candidate first, and a \<^verbatim>\<open>bind\<close>
  that fails for the second candidate (\<^verbatim>\<open>EADDRNOTAVAIL\<close>, 99): the socket of the first is
  closed unbound, the socket of the second is closed after its \<^verbatim>\<open>bind\<close>, and the third
  is bound and connected.
\<close>

theorem network_connect_in_order_witness:
  "fst (network_connect True sample_libc (failing_world 1 111) [candidate_a, candidate_b] None
          initial_state) = 3 \<and>
   open_fds (snd (network_connect True sample_libc (failing_world 1 111)
                    [candidate_a, candidate_b] None initial_state)) = [3, 0, 1, 2] \<and>
   last (events (snd (network_connect True sample_libc (failing_world 1 111)
                    [candidate_a, candidate_b] None initial_state))) =
     Ev_connect 3 (ai_addr candidate_b) 0 \<and>
   source_requirement True sample_libc AF_INET6 (Some ''192.0.2.10'') = Unusable \<and>
   source_requirement True sample_libc AF_INET (Some ''192.0.2.10'') =
     Bind_to (Sockaddr_in 0 0xC000020A) \<and>
   fst (network_connect True sample_libc (failing_world 3 99)
          [candidate_c, candidate_a, candidate_b] (Some ''192.0.2.10'') initial_state) = 3 \<and>
   events (snd (network_connect True sample_libc (failing_world 3 99)
                  [candidate_c, candidate_a, candidate_b] (Some ''192.0.2.10'') initial_state)) =
     [Ev_socket AF_INET6 1 6 [0, 1, 2] 3, Ev_close 3 0,
      Ev_socket AF_INET 1 6 [0, 1, 2] 3, Ev_bind 3 (Sockaddr_in 0 0xC000020A) (-1), Ev_close 3 0,
      Ev_socket AF_INET 1 6 [0, 1, 2] 3, Ev_bind 3 (Sockaddr_in 0 0xC000020A) 0,
      Ev_connect 3 (ai_addr candidate_b) 0] \<and>
   followed (next_call True sample_libc (Some ''192.0.2.10''))
     (events (snd (network_connect True sample_libc (failing_world 3 99)
                     [candidate_c, candidate_a, candidate_b] (Some ''192.0.2.10'') initial_state)))
     None"
proof -
  obtain s' where run: "network_connect True sample_libc (failing_world 1 111)
      [candidate_a, candidate_b] None initial_state = (3, s')"
    and s': "s' = \<lparr>open_fds = [3, 0, 1, 2], errno = 111, clock = 5,
          events = [Ev_socket AF_INET 1 6 [0, 1, 2] 3, Ev_connect 3 (Sockaddr_in 4373 0xC0000201) (-1),
                    Ev_close 3 0, Ev_socket AF_INET 1 6 [0, 1, 2] 3,
                    Ev_connect 3 (Sockaddr_in 4373 0xC0000202) 0]\<rparr>"
    using connect_second by simp
  have ne: "new_events initial_state s' =
              [Ev_socket AF_INET 1 6 [0, 1, 2] 3, Ev_connect 3 (Sockaddr_in 4373 0xC0000201) (-1),
               Ev_close 3 0, Ev_socket AF_INET 1 6 [0, 1, 2] 3,
               Ev_connect 3 (Sockaddr_in 4373 0xC0000202) 0]"
    unfolding s' by (simp add: new_events_def initial_state_def)
  from network_connect_in_order [OF run]
  have "open_fds s' = 3 # open_fds initial_state \<and>
        last (new_events initial_state s') =
          Ev_connect 3 (ai_addr ([candidate_a, candidate_b] !
            (length (socket_calls (new_events initial_state s')) - 1))) 0"
    by simp
  then have first: "open_fds s' = [3, 0, 1, 2] \<and> last (events s') = Ev_connect 3 (ai_addr candidate_b) 0"
    unfolding ne by (simp add: s' initial_state_def candidate_b_def)
  obtain t' where run2: "network_connect True sample_libc (failing_world 3 99)
      [candidate_c, candidate_a, candidate_b] (Some ''192.0.2.10'') initial_state = (3, t')"
    and t': "events t' =
       [Ev_socket AF_INET6 1 6 [0, 1, 2] 3, Ev_close 3 0,
        Ev_socket AF_INET 1 6 [0, 1, 2] 3, Ev_bind 3 (Sockaddr_in 0 0xC000020A) (-1), Ev_close 3 0,
        Ev_socket AF_INET 1 6 [0, 1, 2] 3, Ev_bind 3 (Sockaddr_in 0 0xC000020A) 0,
        Ev_connect 3 (Sockaddr_in 4373 0xC0000202) 0]"
    using connect_from_source by simp
  have ne2: "new_events initial_state t' = events t'"
    by (simp add: new_events_def initial_state_def)
  from network_connect_in_order [OF run2]
  have second: "followed (next_call True sample_libc (Some ''192.0.2.10'')) (events t') None"
    unfolding ne2 by simp
  have req: "source_requirement True sample_libc AF_INET6 (Some ''192.0.2.10'') = Unusable"
    "source_requirement True sample_libc AF_INET (Some ''192.0.2.10'') =
       Bind_to (Sockaddr_in 0 0xC000020A)"
    by (simp_all add: source_requirement_def sample_192_0_2_10 sample_pton6_192_0_2_10)
  from first second req show ?thesis
    unfolding run run2 by (simp add: t' candidate_b_def)
qed

text \<open>
  C7.  When no \<^verbatim>\<open>connect\<close> of the call succeeded, \<open>network_connect\<close> returns -1, the
  descriptors open on return are those open at entry, and \<^verbatim>\<open>errno\<close> is what the calls
  of the attempts left, the code of the most recent one that failed: the \<^verbatim>\<open>close\<close> of
  the last socket does not change it.
\<close>

theorem network_connect_all_failed:
  assumes "network_connect h L W ais source s = (r, s')"
    and "filter is_connected (new_events s s') = []"
  shows "r = -1 \<and> open_fds s' = open_fds s \<and>
         errno s' = errno_after W (clock s) (length (attempts_of (new_events s s'))) (errno s)"
proof -
  obtain fd ok s1 where loop: "connect_loop h L W source ais (-1) s = (fd, ok, s1)"
    by (cases "connect_loop h L W source ais (-1) s")
  from connect_loop_props [OF loop loop_inv_start] obtain evs where
    e: "events s1 = events s @ evs" "loop_inv (open_fds s) fd s1"
       "evs = [] \<or> \<not> is_close (last evs)"
    and ok: "ok \<longrightarrow> evs \<noteq> [] \<and> filter is_connected evs = [last evs]"
    by blast
  from tracks_connect_loop [OF loop loop_inv_start] obtain k where
    k: "length (events s1) = length (events s) + k"
       "errno s1 = errno_after W (clock s) k (errno s)"
    unfolding tracks_def by blast
  have len: "length evs = k" using k(1) e(1) by simp
  have nok: "\<not> ok"
  proof
    assume ok
    with assms(1) loop have "s' = s1" by (simp add: network_connect_def)
    then have "new_events s s' = evs" using e(1) by (simp add: new_events_append)
    with assms(2) ok \<open>ok\<close> show False by simp
  qed
  show ?thesis
  proof (cases "fd \<ge> 0")
    case False
    with assms(1) loop nok have res: "r = -1" "s' = s1"
      by (simp_all add: network_connect_def)
    have ne: "new_events s s' = evs"
      using e(1) res by (simp add: new_events_append)
    have "attempts_of evs = evs"
      using e(3) by (auto simp add: attempts_of_def)
    with res False e(2) k(2) len show ?thesis
      unfolding ne by (simp add: loop_inv_def)
  next
    case True
    with assms(1) loop nok have res: "r = -1"
        "s' = (snd (sys_close W fd s1))\<lparr>errno := errno s1\<rparr>"
      by (simp_all add: network_connect_def Let_def)
    from True e(2) have o: "open_fds s1 = fd # open_fds s" "fd \<notin> set (open_fds s)"
      by (simp_all add: loop_inv_def)
    then have mem: "fd \<in> set (open_fds s1)" by simp
    from sys_close_props [OF mem, of W] obtain c where
      c: "events (snd (sys_close W fd s1)) = events s1 @ [Ev_close fd c]"
         "open_fds (snd (sys_close W fd s1)) = removeAll fd (open_fds s1)"
      by blast
    have ne: "new_events s s' = evs @ [Ev_close fd c]"
      using c(1) res(2) e(1) by (intro new_events_append) simp
    have "attempts_of (evs @ [Ev_close fd c]) = evs"
      by (simp add: attempts_of_def)
    with res c(2) o k(2) len show ?thesis
      unfolding ne by simp
  qed
qed



text \<open>
  Both candidates refuse the connection and the last \<^verbatim>\<open>close\<close> fails: the call
  returns -1 with the three descriptors of the start open and \<^verbatim>\<open>errno\<close> 111.
\<close>

theorem network_connect_all_failed_witness:
  "fst (network_connect True sample_libc refusing_world [candidate_a, candidate_b] None
          initial_state) = -1 \<and>
   open_fds (snd (network_connect True sample_libc refusing_world [candidate_a, candidate_b]
                    None initial_state)) = [0, 1, 2] \<and>
   errno (snd (network_connect True sample_libc refusing_world [candidate_a, candidate_b]
                 None initial_state)) = 111 \<and>
   sys_fail refusing_world 5 = Some 5"
proof -
  obtain s' where run: "network_connect True sample_libc refusing_world
      [candidate_a, candidate_b] None initial_state = (-1, s')"
    and s': "s' = \<lparr>open_fds = [0, 1, 2], errno = 111, clock = 6,
          events = [Ev_socket AF_INET 1 6 [0, 1, 2] 3, Ev_connect 3 (Sockaddr_in 4373 0xC0000201) (-1),
                    Ev_close 3 0, Ev_socket AF_INET 1 6 [0, 1, 2] 3,
                    Ev_connect 3 (Sockaddr_in 4373 0xC0000202) (-1), Ev_close 3 (-1)]\<rparr>"
    using connect_none by simp
  have quiet: "filter is_connected (new_events initial_state s') = []"
    unfolding s' by (simp add: new_events_def initial_state_def)
  from network_connect_all_failed [OF run quiet]
  show ?thesis
    unfolding run by (simp add: s' refusing_world_def initial_state_def)
qed




section \<open>The daemon\<close>

lemma only_events_refl: "only_events P s s"
  by (simp add: only_events_def)

lemma only_events_same: "events s' = events s \<Longrightarrow> only_events P s s'"
  by (simp add: only_events_def)

lemma only_events_trans:
  "only_events P s s1 \<Longrightarrow> only_events P s1 s2 \<Longrightarrow> only_events P s s2"
  by (auto simp add: only_events_def)

lemma only_events_one: "events s' = events s @ [e] \<Longrightarrow> P e \<Longrightarrow> only_events P s s'"
  by (simp add: only_events_def)

lemma only_events_new: "only_events P s s' \<Longrightarrow> events s' = events s @ new_events s s' \<and> list_all P (new_events s s')"
  by (auto simp add: only_events_def new_events_def)

lemma only_record_call: "P e \<Longrightarrow> only_events P s (record_call e s)"
  by (rule only_events_one [of _ _ e]) (simp_all add: record_call_def)

lemma only_warn: "P (Ev_warn m) \<Longrightarrow> only_events P s (warn m s)"
  by (rule only_events_one [of _ _ "Ev_warn m"]) (simp_all add: warn_def)

lemma only_syswarn: "P (Ev_warn m) \<Longrightarrow> only_events P s (syswarn m s)"
  by (rule only_events_one [of _ _ "Ev_warn m"]) (simp_all add: syswarn_def)

lemma only_sys_close: "(\<And>r. P (Ev_close fd r)) \<Longrightarrow> only_events P s (snd (sys_close W fd s))"
  by (auto simp add: sys_close_def record_call_def only_events_def split: option.splits)

lemma only_sys_plain: "(\<And>r. P (ev r)) \<Longrightarrow> sys_plain W ev s = (r, s') \<Longrightarrow> only_events P s s'"
  by (auto simp add: sys_plain_def record_call_def only_events_def split: option.splits)

lemma only_sys_socket:
  "(\<And>snap r. P (Ev_socket d t p snap r)) \<Longrightarrow> sys_socket W d t p s = (fd, s') \<Longrightarrow> only_events P s s'"
  by (auto simp add: sys_socket_def record_call_def only_events_def Let_def split: option.splits)

lemma only_sys_accept:
  "(\<And>r. P (Ev_accept lfd r)) \<Longrightarrow> sys_accept W lfd s = (fd, s') \<Longrightarrow> only_events P s s'"
  by (auto simp add: sys_accept_def record_call_def only_events_def Let_def split: option.splits)


lemma accept_loop_Suc:
  "accept_loop W (Suc n) stmp creds s = accept_loop W n stmp creds (serve_one W stmp creds s)"
  by (simp add: serve_one_def split_def Let_def)

lemma main_unfold:
  "main L W n argv s0 =
     (let s1 = record_call (Ev_alarm (60 * 60)) s0
      in case parse_options L argv initial_settings of
           Inl stop \<Rightarrow> (stop, s1)
         | Inr v \<Rightarrow>
             (let s2 = record_call (Ev_config_load (conffile v) (config_ok W (conffile v))) s1
              in if \<not> config_ok W (conffile v) then (Died ''cannot read configuration file'', s2)
                 else
                   (let ((ok, creds), s3) =
                          (case service v of
                             None \<Rightarrow> ((True, None), s2)
                           | Some sv \<Rightarrow> acquire_creds W sv s2)
                    in if \<not> ok then (Died ''unable to acquire creds, aborting'', s3)
                       else run_mode W n v creds s3)))"
  unfolding main_def run_mode_def ..

lemma main_configured:
  assumes "parse_options L argv initial_settings = Inr v" and "config_ok W (conffile v)"
  shows "main L W n argv s0 =
           (case (case service v of
                    None \<Rightarrow>
                      ((True, None),
                       record_call (Ev_config_load (conffile v) (config_ok W (conffile v)))
                         (record_call (Ev_alarm (60 * 60)) s0))
                  | Some sv \<Rightarrow>
                      acquire_creds W sv
                        (record_call (Ev_config_load (conffile v) (config_ok W (conffile v)))
                           (record_call (Ev_alarm (60 * 60)) s0))) of
              ((ok, creds), s3) \<Rightarrow>
                if \<not> ok then (Died ''unable to acquire creds, aborting'', s3)
                else run_mode W n v creds s3)"
  using assms
  by (cases "service v") (simp_all add: main_unfold Let_def split: prod.splits)

lemma handle_connection_events:
  "(\<exists>r. events (server_handle_connection W fd creds s) =
          events s @ [Ev_new_client fd None, Ev_close fd r]) \<or>
   (\<exists>v. events (server_handle_connection W fd creds s) =
          events s @ [Ev_new_client fd (Some v), Ev_handle_commands (if v = 1 then 1 else 2) fd,
                      Ev_free_client fd])"
  by (auto simp add: server_handle_connection_def record_call_def sys_close_def Let_def
        split: option.splits)

lemma sys_accept_events:
  assumes "sys_accept W lfd s = (fd, s1)"
  shows "events s1 = events s @ [Ev_accept lfd fd]" and "fd < 0 \<longrightarrow> fd = -1"
  using assms lowest_free_nonneg [of "open_fds s"]
  by (auto simp add: sys_accept_def record_call_def Let_def split: option.splits)

lemma serve_one_block: "\<exists>b. events (serve_one W stmp creds s) = events s @ block stmp b"
proof -
  obtain fd s1 where acc: "sys_accept W stmp s = (fd, s1)"
    by (cases "sys_accept W stmp s")
  note ae = sys_accept_events [OF acc]
  show ?thesis
  proof (cases "fd < 0")
    case True
    with ae have "events (serve_one W stmp creds s) = events s @ block stmp Accept_failed"
      by (simp add: serve_one_def acc syswarn_def)
    then show ?thesis ..
  next
    case False
    from handle_connection_events [of W fd creds s1] show ?thesis
    proof (elim disjE exE)
      fix r assume "events (server_handle_connection W fd creds s1) =
                      events s1 @ [Ev_new_client fd None, Ev_close fd r]"
      with False ae have "events (serve_one W stmp creds s) = events s @ block stmp (Handler_failed fd r)"
        by (simp add: serve_one_def acc)
      then show ?thesis ..
    next
      fix v assume "events (server_handle_connection W fd creds s1) =
                      events s1 @ [Ev_new_client fd (Some v),
                                   Ev_handle_commands (if v = 1 then 1 else 2) fd, Ev_free_client fd]"
      with False ae have "events (serve_one W stmp creds s) = events s @ block stmp (Served fd v)"
        by (simp add: serve_one_def acc)
      then show ?thesis ..
    qed
  qed
qed

lemma accept_loop_blocks:
  "\<exists>bs. length bs = n \<and>
        events (accept_loop W n stmp creds s) = events s @ concat (map (block stmp) bs)"
proof (induction n arbitrary: s)
  case 0
  show ?case by simp
next
  case (Suc n)
  from serve_one_block [of W stmp creds s] obtain b where
    b: "events (serve_one W stmp creds s) = events s @ block stmp b" ..
  from Suc [of "serve_one W stmp creds s"] obtain bs where
    bs: "length bs = n"
        "events (accept_loop W n stmp creds (serve_one W stmp creds s)) =
           events (serve_one W stmp creds s) @ concat (map (block stmp) bs)"
    by blast
  show ?case
    unfolding accept_loop_Suc using b bs
    by (intro exI [of _ "b # bs"]) simp
qed

lemma lowest_free_listening: "lowest_free [3, 0, 1, 2] = 4"
  by (simp add: lowest_free_def)

lemma is_accept_simps [simp]:
  "is_accept (Ev_accept lfd r)"
  "\<not> is_accept (Ev_socket d t p snap r)"
  "\<not> is_accept (Ev_setsockopt fd r)"
  "\<not> is_accept (Ev_bind fd a r)"
  "\<not> is_accept (Ev_listen fd r)"
  "\<not> is_accept (Ev_close fd r)"
  "\<not> is_accept (Ev_warn m)"
  "\<not> is_accept (Ev_gss name major)"
  "\<not> is_accept (Ev_config_load f b)"
  "\<not> is_accept (Ev_alarm k)"
  "\<not> is_accept (Ev_pid_file f b)"
  by (simp_all add: is_accept_def)

lemma serve_one_block_ok:
  "\<exists>b. block_ok b \<and> events (serve_one W stmp creds s) = events s @ block stmp b"
proof -
  obtain fd s1 where acc: "sys_accept W stmp s = (fd, s1)"
    by (cases "sys_accept W stmp s")
  note ae = sys_accept_events [OF acc]
  show ?thesis
  proof (cases "fd < 0")
    case True
    with ae have "events (serve_one W stmp creds s) = events s @ block stmp Accept_failed"
      by (simp add: serve_one_def acc syswarn_def)
    then show ?thesis by (intro exI [of _ Accept_failed]) simp
  next
    case False
    from handle_connection_events [of W fd creds s1] show ?thesis
    proof (elim disjE exE)
      fix r assume "events (server_handle_connection W fd creds s1) =
                      events s1 @ [Ev_new_client fd None, Ev_close fd r]"
      with False ae have "events (serve_one W stmp creds s) = events s @ block stmp (Handler_failed fd r)"
        by (simp add: serve_one_def acc)
      with False show ?thesis by (intro exI [of _ "Handler_failed fd r"]) simp
    next
      fix v assume "events (server_handle_connection W fd creds s1) =
                      events s1 @ [Ev_new_client fd (Some v),
                                   Ev_handle_commands (if v = 1 then 1 else 2) fd, Ev_free_client fd]"
      with False ae have "events (serve_one W stmp creds s) = events s @ block stmp (Served fd v)"
        by (simp add: serve_one_def acc)
      with False show ?thesis by (intro exI [of _ "Served fd v"]) simp
    qed
  qed
qed

lemma accept_loop_blocks_ok:
  "\<exists>bs. length bs = n \<and> list_all block_ok bs \<and>
        events (accept_loop W n stmp creds s) = events s @ concat (map (block stmp) bs)"
proof (induction n arbitrary: s)
  case 0
  show ?case by simp
next
  case (Suc n)
  from serve_one_block_ok [of W stmp creds s] obtain b where
    b: "block_ok b" "events (serve_one W stmp creds s) = events s @ block stmp b" by blast
  from Suc [of "serve_one W stmp creds s"] obtain bs where
    bs: "length bs = n" "list_all block_ok bs"
        "events (accept_loop W n stmp creds (serve_one W stmp creds s)) =
           events (serve_one W stmp creds s) @ concat (map (block stmp) bs)"
    by blast
  show ?case
    unfolding accept_loop_Suc using b bs
    by (intro exI [of _ "b # bs"]) simp
qed

text \<open>create_socket: a descriptor is returned only after a successful listen on it.\<close>

lemma create_socket_listening:
  assumes "create_socket W p s = (stmp, s')" and "\<not> stmp < 0"
  shows "\<exists>evs. events s' = events s @ evs \<and> list_all (\<lambda>e. \<not> is_accept e) evs \<and>
               evs \<noteq> [] \<and> last evs = Ev_listen stmp 0"
  using assms
  by (auto simp add: create_socket_def sys_socket_def sys_setsockopt_def sys_bind_def
        sys_listen_def sys_plain_def sys_close_def record_call_def syswarn_def
        Let_def split: option.splits prod.splits if_splits)


lemma write_pid_file_events:
  "write_pid_file W path s = (True, s') \<Longrightarrow> events s' = events s @ [Ev_pid_file path True]"
  by (auto simp add: write_pid_file_def record_call_def split: option.splits)

lemma run_mode_serving_log:
  assumes "run_mode W n v creds s3 = (Serving, s')"
  shows "\<exists>s6 stmp pre pid bs.
           run_mode W 0 v creds s3 = (Serving, s6) \<and>
           events s6 = events s3 @ pre @ [Ev_listen stmp 0] @ pid \<and>
           list_all (\<lambda>e. \<not> is_accept e) pre \<and>
           (pid = [] \<or> (\<exists>path. pid = [Ev_pid_file path True])) \<and>
           0 \<le> stmp \<and>
           events s' = events s6 @ concat (map (block stmp) bs) \<and>
           length bs = n \<and> list_all block_ok bs"
proof -
  from assms have standalone: "do_standalone v"
    by (auto simp add: run_mode_def Let_def split: if_splits)
  define s4 where "s4 = record_call (Ev_alarm 0) s3"
  have e4: "events s4 = events s3 @ [Ev_alarm 0]"
    by (simp add: s4_def record_call_def)
  obtain stmp s5 where cs: "create_socket W (port v) s4 = (stmp, s5)"
    by (cases "create_socket W (port v) s4")
  from assms standalone cs have nonneg: "\<not> stmp < 0"
    by (auto simp add: run_mode_def s4_def [symmetric] split: if_splits)
  from create_socket_listening [OF cs nonneg] obtain evs where
    evs: "events s5 = events s4 @ evs" "list_all (\<lambda>e. \<not> is_accept e) evs" "evs \<noteq> []"
         "last evs = Ev_listen stmp 0"
    by blast
  have split: "evs = butlast evs @ [Ev_listen stmp 0]"
    using evs(3,4) by (metis append_butlast_last_id)
  have quiet: "list_all (\<lambda>e. \<not> is_accept e) (butlast evs)"
    using evs(2) by (auto simp add: list_all_iff dest: in_set_butlastD)
  obtain written s6 where pf:
      "(case pid_path v of None \<Rightarrow> (True, s5) | Some path \<Rightarrow> write_pid_file W path s5) =
         (written, s6)"
    by (cases "case pid_path v of None \<Rightarrow> (True, s5) | Some path \<Rightarrow> write_pid_file W path s5")
  from assms standalone cs nonneg pf have written: written
    and s': "s' = accept_loop W n stmp creds s6"
    by (auto simp add: run_mode_def s4_def [symmetric] split: if_splits)
  have zero: "run_mode W 0 v creds s3 = (Serving, s6)"
    using standalone cs nonneg pf written
    by (simp add: run_mode_def s4_def [symmetric])
  have pid: "\<exists>pid. events s6 = events s5 @ pid \<and>
                   (pid = [] \<or> (\<exists>path. pid = [Ev_pid_file path True]))"
  proof (cases "pid_path v")
    case None
    with pf show ?thesis by (intro exI [of _ "[]"]) simp
  next
    case (Some path)
    with pf written have "write_pid_file W path s5 = (True, s6)" by simp
    from write_pid_file_events [OF this] show ?thesis
      by (intro exI [of _ "[Ev_pid_file path True]"]) simp
  qed
  then obtain pid where pid: "events s6 = events s5 @ pid"
      "pid = [] \<or> (\<exists>path. pid = [Ev_pid_file path True])"
    by blast
  from accept_loop_blocks_ok [of n W stmp creds s6] obtain bs where
    bs: "length bs = n" "list_all block_ok bs"
        "events (accept_loop W n stmp creds s6) = events s6 @ concat (map (block stmp) bs)"
    by blast
  have e6: "events s6 = events s3 @ (Ev_alarm 0 # butlast evs) @ [Ev_listen stmp 0] @ pid"
    using pid(1) evs(1) e4 split by (metis append.assoc append_Cons append_Nil)
  show ?thesis
    using zero e6 quiet pid(2) nonneg bs s'
    by (intro exI [of _ s6] exI [of _ stmp] exI [of _ "Ev_alarm 0 # butlast evs"]
          exI [of _ pid] exI [of _ bs]) simp
qed

lemma parse_options_not_serving: "parse_options L argv v \<noteq> Inl Serving"
  by (induction L argv v rule: parse_options.induct) simp_all

lemma acquire_creds_quiet:
  assumes "acquire_creds W sv s = ((ok, creds), s')"
  shows "\<exists>evs. events s' = events s @ evs \<and> list_all (\<lambda>e. \<not> is_accept e) evs"
  using assms
  by (auto simp add: acquire_creds_def gss_call_def record_call_def warn_def Let_def
        split: if_splits)

lemma accept_loop_add:
  "accept_loop W (n + k) stmp creds s = accept_loop W k stmp creds (accept_loop W n stmp creds s)"
proof (induction n arbitrary: s)
  case 0
  show ?case by simp
next
  case (Suc n)
  show ?case
    unfolding add_Suc accept_loop_Suc by (rule Suc)
qed

lemma accept_loop_extends:
  "n \<le> m \<Longrightarrow> prefix (events (accept_loop W n stmp creds s)) (events (accept_loop W m stmp creds s))"
proof -
  assume "n \<le> m"
  then obtain k where m: "m = n + k"
    using le_Suc_ex by blast
  from accept_loop_blocks_ok [of k W stmp creds "accept_loop W n stmp creds s"]
  show ?thesis
    unfolding m accept_loop_add by (auto simp add: prefix_def)
qed

lemma main_serving_run_mode:
  assumes "main L W n argv s0 = (Serving, s')"
  shows "\<exists>v creds s3 evs.
           (\<forall>m. main L W m argv s0 = run_mode W m v creds s3) \<and>
           events s3 = events s0 @ evs \<and> list_all (\<lambda>e. \<not> is_accept e) evs"
proof -
  let ?s1 = "record_call (Ev_alarm (60 * 60)) s0"
  show ?thesis
  proof (cases "parse_options L argv initial_settings")
    case (Inl stop)
    with assms have "stop = Serving" by (simp add: main_unfold)
    with Inl parse_options_not_serving show ?thesis by blast
  next
    case (Inr v)
    let ?s2 = "record_call (Ev_config_load (conffile v) (config_ok W (conffile v))) ?s1"
    have e2: "events ?s2 = events s0 @ [Ev_alarm (60 * 60),
                 Ev_config_load (conffile v) (config_ok W (conffile v))]"
      by (simp add: record_call_def)
    from assms Inr have conf: "config_ok W (conffile v)"
      by (auto simp add: main_unfold Let_def split: if_splits)
    obtain ok creds s3 where ac:
        "(case service v of None \<Rightarrow> ((True, None), ?s2) | Some sv \<Rightarrow> acquire_creds W sv ?s2) =
           ((ok, creds), s3)"
      by (cases "case service v of None \<Rightarrow> ((True, None), ?s2) | Some sv \<Rightarrow> acquire_creds W sv ?s2")
         auto
    have rest: "main L W m argv s0 =
                  (if \<not> ok then (Died ''unable to acquire creds, aborting'', s3)
                   else run_mode W m v creds s3)" for m
      unfolding main_configured [OF Inr conf] ac by simp
    from assms rest [of n] have ok: ok
      by (auto split: if_splits)
    have "\<exists>evs. events s3 = events ?s2 @ evs \<and> list_all (\<lambda>e. \<not> is_accept e) evs"
      using ac by (auto split: option.splits dest: acquire_creds_quiet)
    then obtain evs where evs: "events s3 = events ?s2 @ evs" "list_all (\<lambda>e. \<not> is_accept e) evs"
      by blast
    have "events s3 = events s0 @ ([Ev_alarm (60 * 60),
                 Ev_config_load (conffile v) (config_ok W (conffile v))] @ evs)"
      unfolding evs(1) e2 by simp
    moreover have "list_all (\<lambda>e. \<not> is_accept e) ([Ev_alarm (60 * 60),
                 Ev_config_load (conffile v) (config_ok W (conffile v))] @ evs)"
      using evs(2) by simp
    ultimately show ?thesis
      using rest ok by (intro exI [of _ v] exI [of _ creds] exI [of _ s3]) auto
  qed
qed

lemma run_mode_extends:
  assumes "run_mode W n v creds s3 = (Serving, s')"
  shows "\<exists>s''. run_mode W m v creds s3 = (Serving, s'') \<and> (n \<le> m \<longrightarrow> prefix (events s') (events s''))"
  using assms accept_loop_extends [of n m W]
  by (auto simp add: run_mode_def Let_def split: prod.splits if_splits)

lemma main_rough:
  "main sample_libc rough_world (Suc (Suc (Suc 0))) [Opt_m] initial_state =
     (Serving,
      \<lparr>open_fds = [4, 3, 0, 1, 2], errno = 24, clock = 15,
       events = [Ev_alarm 3600, Ev_config_load ''remctl.conf'' True, Ev_alarm 0,
                 Ev_socket AF_INET 1 0 [0, 1, 2] 3, Ev_setsockopt 3 0,
                 Ev_bind 3 (Sockaddr_in 4444 0) 0, Ev_listen 3 0,
                 Ev_accept 3 (-1), Ev_warn ''error accepting connection'',
                 Ev_accept 3 4, Ev_new_client 4 None, Ev_close 4 0,
                 Ev_accept 3 4, Ev_new_client 4 (Some 2), Ev_handle_commands 2 4,
                 Ev_free_client 4]\<rparr>)"
  by (simp add: main_def initial_settings_def CONFIG_FILE_def rough_world_def calm_world_def
        initial_state_def record_call_def create_socket_def sys_socket_def sys_setsockopt_def
        sys_bind_def sys_listen_def sys_plain_def htons_def SOCK_STREAM_def
        sys_accept_def syswarn_def server_handle_connection_def sys_close_def
        lowest_free_std lowest_free_listening Let_def)


text \<open>
  C9.  Every run of \<open>main\<close> that is in the accept loop after \<open>n\<close> iterations entered it
  with the log of a start that called no \<^verbatim>\<open>accept\<close> and ended with the \<^verbatim>\<open>listen\<close> on the
  socket \<open>stmp\<close>, followed at most by the writing of the PID file; and its log from
  there on is \<open>n\<close> blocks, one after the other.  Each block is one \<^verbatim>\<open>accept\<close> on \<open>stmp\<close>
  and then either the warning that it failed, or, for the descriptor returned, which
  is not negative, the whole handling of that connection: all of it before the
  \<^verbatim>\<open>accept\<close> of the next block.  A failed \<^verbatim>\<open>accept\<close> and a connection whose handler fails,
  and which is then closed, are each followed by the next block: the run is in the
  loop after any number \<open>m\<close> of iterations, and its log for \<open>m \<ge> n\<close> extends the one
  for \<open>n\<close>.
\<close>

theorem accept_loop_serial:
  assumes "main L W n argv s0 = (Serving, s')"
  shows "\<exists>s6 stmp pre pid bs.
           main L W 0 argv s0 = (Serving, s6) \<and>
           events s6 = events s0 @ pre @ [Ev_listen stmp 0] @ pid \<and>
           list_all (\<lambda>e. \<not> is_accept e) pre \<and>
           (pid = [] \<or> (\<exists>path. pid = [Ev_pid_file path True])) \<and>
           0 \<le> stmp \<and>
           events s' = events s6 @ concat (map (block stmp) bs) \<and>
           length bs = n \<and> list_all block_ok bs \<and>
           (\<forall>m. \<exists>s''. main L W m argv s0 = (Serving, s'') \<and>
                  (n \<le> m \<longrightarrow> prefix (events s') (events s'')))"
proof -
  from main_serving_run_mode [OF assms] obtain v creds s3 evs where
    rm: "\<And>m. main L W m argv s0 = run_mode W m v creds s3"
    and evs: "events s3 = events s0 @ evs" "list_all (\<lambda>e. \<not> is_accept e) evs"
    by blast
  from assms rm have run: "run_mode W n v creds s3 = (Serving, s')"
    by simp
  from run_mode_serving_log [OF run] obtain s6 stmp pre pid bs where
    log: "run_mode W 0 v creds s3 = (Serving, s6)"
         "events s6 = events s3 @ pre @ [Ev_listen stmp 0] @ pid"
         "list_all (\<lambda>e. \<not> is_accept e) pre"
         "pid = [] \<or> (\<exists>path. pid = [Ev_pid_file path True])"
         "0 \<le> stmp"
         "events s' = events s6 @ concat (map (block stmp) bs)"
         "length bs = n" "list_all block_ok bs"
    by blast
  have later: "\<forall>m. \<exists>s''. main L W m argv s0 = (Serving, s'') \<and>
                  (n \<le> m \<longrightarrow> prefix (events s') (events s''))"
    unfolding rm using run_mode_extends [OF run] by blast
  have e6: "events s6 = events s0 @ (evs @ pre) @ [Ev_listen stmp 0] @ pid"
    unfolding log(2) evs(1) by simp
  have quiet: "list_all (\<lambda>e. \<not> is_accept e) (evs @ pre)"
    using evs(2) log(3) by simp
  show ?thesis
    using log(1,4,5,6,7,8) e6 quiet later
    unfolding rm [symmetric]
    by (intro exI [of _ s6] exI [of _ stmp] exI [of _ "evs @ pre"] exI [of _ pid] exI [of _ bs])
       simp
qed


text \<open>
  The standalone daemon, started without a service, in a world in which the first
  \<^verbatim>\<open>accept\<close> fails and the handler of the first connection fails: the next connection is
  accepted and served.
\<close>

theorem accept_loop_serial_witness:
  "fst (main sample_libc rough_world 3 [Opt_m] initial_state) = Serving \<and>
   (\<exists>pre. events (snd (main sample_libc rough_world 3 [Opt_m] initial_state)) =
            pre @ [Ev_listen 3 0] @
            concat (map (block 3) [Accept_failed, Handler_failed 4 0, Served 4 2])) \<and>
   (\<forall>m. fst (main sample_libc rough_world m [Opt_m] initial_state) = Serving)"
proof -
  have three: "(3 :: nat) = Suc (Suc (Suc 0))" by simp
  obtain s' where run: "main sample_libc rough_world 3 [Opt_m] initial_state = (Serving, s')"
    and s': "events s' =
       [Ev_alarm 3600, Ev_config_load ''remctl.conf'' True, Ev_alarm 0,
        Ev_socket AF_INET 1 0 [0, 1, 2] 3, Ev_setsockopt 3 0,
        Ev_bind 3 (Sockaddr_in 4444 0) 0] @ [Ev_listen 3 0] @
       concat (map (block 3) [Accept_failed, Handler_failed 4 0, Served 4 2])"
    unfolding three main_rough by simp
  from accept_loop_serial [OF run]
  have "\<forall>m. fst (main sample_libc rough_world m [Opt_m] initial_state) = Serving"
    by (metis fst_conv)
  with s' show ?thesis
    unfolding run by auto
qed


lemma cred_failure_simps [simp]:
  "cred_failure (Ev_gss name major) =
     (major \<noteq> 0 \<and> (name = ''gss_import_name'' \<or> name = ''gss_acquire_cred''))"
  "\<not> cred_failure (Ev_socket d t p snap r)"
  "\<not> cred_failure (Ev_setsockopt fd r)"
  "\<not> cred_failure (Ev_bind fd a r)"
  "\<not> cred_failure (Ev_listen fd r)"
  "\<not> cred_failure (Ev_accept fd r)"
  "\<not> cred_failure (Ev_close fd r)"
  "\<not> cred_failure (Ev_warn m)"
  "\<not> cred_failure (Ev_config_load f b)"
  "\<not> cred_failure (Ev_new_client fd c)"
  "\<not> cred_failure (Ev_handle_commands v fd)"
  "\<not> cred_failure (Ev_free_client fd)"
  "\<not> cred_failure (Ev_alarm k)"
  "\<not> cred_failure (Ev_pid_file f b)"
  by (simp_all add: cred_failure_def)

lemma is_socket_or_accept_simps [simp]:
  "is_socket_or_accept (Ev_socket d t p snap r)"
  "is_socket_or_accept (Ev_bind fd a r)"
  "is_socket_or_accept (Ev_listen fd r)"
  "is_socket_or_accept (Ev_accept fd r)"
  "\<not> is_socket_or_accept (Ev_gss name major)"
  "\<not> is_socket_or_accept (Ev_warn m)"
  "\<not> is_socket_or_accept (Ev_config_load f b)"
  "\<not> is_socket_or_accept (Ev_alarm k)"
  by (simp_all add: is_socket_or_accept_def)

lemma block_calm: "list_all (\<lambda>e. \<not> cred_failure e) (block stmp b)"
  by (cases b) simp_all

lemma accept_loop_calm:
  "only_events (\<lambda>e. \<not> cred_failure e) s (accept_loop W n stmp creds s)"
proof -
  from accept_loop_blocks [of n W stmp creds s] obtain bs where
    "events (accept_loop W n stmp creds s) = events s @ concat (map (block stmp) bs)"
    by blast
  moreover have "list_all (\<lambda>e. \<not> cred_failure e) (concat (map (block stmp) bs))"
    by (induction bs) (simp_all add: block_calm)
  ultimately show ?thesis by (auto simp add: only_events_def)
qed

lemma handle_connection_calm:
  "only_events (\<lambda>e. \<not> cred_failure e) s (server_handle_connection W fd creds s)"
  using handle_connection_events [of W fd creds s]
  by (auto simp add: only_events_def)

lemma create_socket_calm:
  "create_socket W p s = (r, s') \<Longrightarrow> only_events (\<lambda>e. \<not> cred_failure e) s s'"
  by (auto simp add: create_socket_def sys_socket_def sys_setsockopt_def sys_bind_def
        sys_listen_def sys_plain_def sys_close_def record_call_def syswarn_def only_events_def
        Let_def split: option.splits prod.splits if_splits)

lemma write_pid_file_calm:
  "write_pid_file W path s = (r, s') \<Longrightarrow> only_events (\<lambda>e. \<not> cred_failure e) s s'"
  by (auto simp add: write_pid_file_def record_call_def only_events_def split: option.splits)

lemma run_mode_calm:
  assumes "run_mode W n v creds s = (out, s')"
  shows "only_events (\<lambda>e. \<not> cred_failure e) s s'"
proof (cases "do_standalone v")
  case False
  define s4 where "s4 = server_handle_connection W 0 creds s"
  have a: "only_events (\<lambda>e. \<not> cred_failure e) s s4"
    unfolding s4_def by (rule handle_connection_calm)
  have b: "only_events (\<lambda>e. \<not> cred_failure e) s4 (snd (gss_call W ''gss_release_cred'' s4))"
    by (simp add: gss_call_def only_record_call)
  from assms False have "s' = s4 \<or> s' = snd (gss_call W ''gss_release_cred'' s4)"
    by (auto simp add: run_mode_def s4_def Let_def split: if_splits)
  with a only_events_trans [OF a b] show ?thesis by blast
next
  case True
  define s4 where "s4 = record_call (Ev_alarm 0) s"
  have a: "only_events (\<lambda>e. \<not> cred_failure e) s s4"
    unfolding s4_def by (simp add: only_record_call)
  obtain stmp s5 where cs: "create_socket W (port v) s4 = (stmp, s5)"
    by (cases "create_socket W (port v) s4")
  have b: "only_events (\<lambda>e. \<not> cred_failure e) s s5"
    using a create_socket_calm [OF cs] by (rule only_events_trans)
  show ?thesis
  proof (cases "stmp < 0")
    case neg: True
    with assms True cs have "s' = s5"
      by (simp add: run_mode_def s4_def [symmetric])
    with b show ?thesis by simp
  next
    case False
    obtain written s6 where pf:
        "(case pid_path v of None \<Rightarrow> (True, s5) | Some path \<Rightarrow> write_pid_file W path s5) =
           (written, s6)"
      by (cases "case pid_path v of None \<Rightarrow> (True, s5) | Some path \<Rightarrow> write_pid_file W path s5")
    have c: "only_events (\<lambda>e. \<not> cred_failure e) s5 s6"
      using pf by (auto simp add: only_events_refl split: option.splits dest: write_pid_file_calm)
    have d: "only_events (\<lambda>e. \<not> cred_failure e) s s6"
      using b c by (rule only_events_trans)
    from assms True cs False pf have "s' = s6 \<or> s' = accept_loop W n stmp creds s6"
      by (auto simp add: run_mode_def s4_def [symmetric] split: if_splits)
    with d only_events_trans [OF d accept_loop_calm [of s6 W n stmp creds]]
    show ?thesis by blast
  qed
qed

lemma acquire_creds_cases:
  assumes "acquire_creds W sv s = ((ok, creds), s')"
  shows "open_fds s' = open_fds s"
    and "ok \<Longrightarrow> only_events (\<lambda>e. \<not> cred_failure e) s s'"
    and "\<not> ok \<Longrightarrow> only_events (\<lambda>e. \<not> is_socket_or_accept e) s s'"
  using assms
  by (auto simp add: acquire_creds_def gss_call_def record_call_def warn_def only_events_def
        Let_def split: if_splits)


lemma only_events_calm_no_failure:
  assumes "only_events (\<lambda>e. \<not> cred_failure e) s s'"
  shows "\<not> (\<exists>e\<in>set (new_events s s'). cred_failure e)"
  using only_events_new [OF assms] by (auto simp add: list_all_iff)

lemma main_no_creds:
  "main sample_libc no_creds_world n [Opt_m, Opt_s ''host/example''] initial_state =
     (Died ''unable to acquire creds, aborting'',
      \<lparr>open_fds = [0, 1, 2], errno = 0, clock = 4,
       events = [Ev_alarm 3600, Ev_config_load ''remctl.conf'' True,
                 Ev_gss ''gss_import_name'' 0, Ev_gss ''gss_acquire_cred'' 851968,
                 Ev_warn ''while acquiring credentials'']\<rparr>)"
  by (simp add: main_def initial_settings_def CONFIG_FILE_def no_creds_world_def calm_world_def
        initial_state_def record_call_def acquire_creds_def gss_call_def warn_def)


text \<open>
  C8.  In every run of \<open>main\<close> in which a call acquiring the credential of the
  requested service failed, the process dies with "unable to acquire creds,
  aborting": no socket was created, bound or listened on, no connection accepted,
  and the descriptors are those of the start.
\<close>

theorem credential_failure_is_fatal:
  assumes run: "main L W n argv s0 = (out, s')"
    and failed: "\<exists>e\<in>set (new_events s0 s'). cred_failure e"
  shows "out = Died ''unable to acquire creds, aborting'' \<and>
         list_all (\<lambda>e. \<not> is_socket_or_accept e) (new_events s0 s') \<and>
         open_fds s' = open_fds s0"
proof -
  let ?s1 = "record_call (Ev_alarm (60 * 60)) s0"
  have c1: "only_events (\<lambda>e. \<not> cred_failure e) s0 ?s1"
    and q1: "only_events (\<lambda>e. \<not> is_socket_or_accept e) s0 ?s1"
    by (simp_all add: only_record_call)
  have o1: "open_fds ?s1 = open_fds s0"
    by (simp add: record_call_def)
  show ?thesis
  proof (cases "parse_options L argv initial_settings")
    case (Inl stop)
    with run have "s' = ?s1" by (simp add: main_unfold)
    with c1 failed only_events_calm_no_failure show ?thesis by blast
  next
    case (Inr v)
    let ?s2 = "record_call (Ev_config_load (conffile v) (config_ok W (conffile v))) ?s1"
    have "only_events (\<lambda>e. \<not> cred_failure e) ?s1 ?s2"
      and "only_events (\<lambda>e. \<not> is_socket_or_accept e) ?s1 ?s2"
      by (simp_all add: only_record_call)
    with c1 q1 have c2: "only_events (\<lambda>e. \<not> cred_failure e) s0 ?s2"
      and q2: "only_events (\<lambda>e. \<not> is_socket_or_accept e) s0 ?s2"
      by (blast intro: only_events_trans)+
    have o2: "open_fds ?s2 = open_fds s0"
      by (simp add: record_call_def)
    show ?thesis
    proof (cases "config_ok W (conffile v)")
      case False
      with run Inr have "s' = ?s2" by (simp add: main_unfold)
      with c2 failed only_events_calm_no_failure show ?thesis by blast
    next
      case conf: True
      obtain ok creds s3 where ac:
          "(case service v of None \<Rightarrow> ((True, None), ?s2) | Some sv \<Rightarrow> acquire_creds W sv ?s2) =
             ((ok, creds), s3)"
        by (cases "case service v of None \<Rightarrow> ((True, None), ?s2) | Some sv \<Rightarrow> acquire_creds W sv ?s2")
           auto
      have o3: "open_fds s3 = open_fds ?s2"
        using ac by (auto split: option.splits dest: acquire_creds_cases(1))
      have rest: "main L W n argv s0 =
                    (if \<not> ok then (Died ''unable to acquire creds, aborting'', s3)
                     else run_mode W n v creds s3)"
        unfolding main_configured [OF Inr conf] ac by simp
      show ?thesis
      proof (cases ok)
        case True
        have "only_events (\<lambda>e. \<not> cred_failure e) ?s2 s3"
          using ac True
          by (auto simp add: only_events_refl split: option.splits dest: acquire_creds_cases(2))
        with c2 have c3: "only_events (\<lambda>e. \<not> cred_failure e) s0 s3"
          by (rule only_events_trans)
        from run rest True have "run_mode W n v creds s3 = (out, s')"
          by simp
        from c3 run_mode_calm [OF this] have "only_events (\<lambda>e. \<not> cred_failure e) s0 s'"
          by (rule only_events_trans)
        with failed only_events_calm_no_failure show ?thesis by blast
      next
        case False
        from run rest False have res: "out = Died ''unable to acquire creds, aborting''" "s' = s3"
          by simp_all
        have "only_events (\<lambda>e. \<not> is_socket_or_accept e) ?s2 s3"
          using ac False
          by (auto split: option.splits dest: acquire_creds_cases(3))
        with q2 have "only_events (\<lambda>e. \<not> is_socket_or_accept e) s0 s3"
          by (rule only_events_trans)
        from only_events_new [OF this] res o3 o2 show ?thesis by simp
      qed
    qed
  qed
qed


text \<open>
  The standalone daemon started for the service \<open>host/example\<close>, whose credential
  cannot be acquired.
\<close>

theorem credential_failure_is_fatal_witness:
  "fst (main sample_libc no_creds_world 5 [Opt_m, Opt_s ''host/example''] initial_state) =
     Died ''unable to acquire creds, aborting'' \<and>
   socket_calls (events (snd (main sample_libc no_creds_world 5 [Opt_m, Opt_s ''host/example'']
                               initial_state))) = [] \<and>
   open_fds (snd (main sample_libc no_creds_world 5 [Opt_m, Opt_s ''host/example'']
                    initial_state)) = [0, 1, 2]"
proof -
  obtain s' where run: "main sample_libc no_creds_world 5 [Opt_m, Opt_s ''host/example'']
      initial_state = (Died ''unable to acquire creds, aborting'', s')"
    and s': "s' = \<lparr>open_fds = [0, 1, 2], errno = 0, clock = 4,
       events = [Ev_alarm 3600, Ev_config_load ''remctl.conf'' True,
                 Ev_gss ''gss_import_name'' 0, Ev_gss ''gss_acquire_cred'' 851968,
                 Ev_warn ''while acquiring credentials'']\<rparr>"
    using main_no_creds [of 5] by simp
  have "\<exists>e\<in>set (new_events initial_state s'). cred_failure e"
    unfolding s' by (simp add: new_events_def initial_state_def)
  from credential_failure_is_fatal [OF run this]
  show ?thesis
    unfolding run by (simp add: s' initial_state_def)
qed


end
